theory Spec2Isabelle
  imports Main "HOL-Library.Finite_Map" "HOL-Library.Sublist"
begin

section \<open>The route registry of gorouter (registry/registry.go)\<close>

text \<open>
  The development follows \<^verbatim>\<open>registry/registry.go\<close>. The packages \<^verbatim>\<open>route\<close> (Uri, Endpoint,
  Pool) and \<^verbatim>\<open>registry/container\<close> (Trie) are used by that file but are not part of the
  sources at hand; their operations are modelled from the specification and marked so.
  Time is an integer count of clock units; \<^verbatim>\<open>time.Now()\<close> is an argument of the operation
  that reads the clock.
\<close>

subsection \<open>URI keys\<close>

type_synonym Uri = string

datatype uri_error = NoFallback

definition lower_char :: "char \<Rightarrow> char" where
  "lower_char c =
     (let n = (of_char c :: nat)
      in if 65 \<le> n \<and> n \<le> 90 then char_of (n + 32) else c)"

definition ToLower :: "Uri \<Rightarrow> Uri" where
  "ToLower u = map lower_char u"

definition path_of :: "Uri \<Rightarrow> string" where
  "path_of k = dropWhile (\<lambda>c. c \<noteq> CHR ''/'') k"

text \<open>
  Modelled from the spec: \<^verbatim>\<open>route.Uri.RouteKey\<close> is not among the sources. Spec 4.1:
  ``lowercases the host and the path, drops query/fragment, and removes a single trailing
  \<^verbatim>\<open>/\<close> (except when the entire path is \<^verbatim>\<open>/\<close>)''.
\<close>

definition RouteKey :: "Uri \<Rightarrow> Uri" where
  "RouteKey u =
     (let k = ToLower (takeWhile (\<lambda>c. c \<noteq> CHR ''?'' \<and> c \<noteq> CHR ''#'') u);
          p = path_of k
      in if p \<noteq> [] \<and> p \<noteq> ''/'' \<and> last p = CHR ''/'' then butlast k else k)"

text \<open>
  Modelled from the spec: \<^verbatim>\<open>route.Uri.NextWildcard\<close> is not among the sources. Spec 4.1:
  ``Strip one trailing path segment (\<^verbatim>\<open>host.com/a/b\<close> to \<^verbatim>\<open>host.com/a\<close>). When no path
  remains, replace the leftmost host label with \<^verbatim>\<open>*\<close> once (\<^verbatim>\<open>a.b.c\<close> to \<^verbatim>\<open>*.b.c\<close>, then
  \<^verbatim>\<open>*.c\<close>, then exhausted). Exhaustion fails with NoFallback.'' The Go function returns
  a pair (Uri, error); on exhaustion the model returns the key it was given next to the
  error.
\<close>

definition strip_segment :: "Uri \<Rightarrow> Uri" where
  "strip_segment k = rev (tl (dropWhile (\<lambda>c. c \<noteq> CHR ''/'') (rev k)))"

definition host_rest :: "Uri \<Rightarrow> string" where
  "host_rest k = dropWhile (\<lambda>c. c \<noteq> CHR ''.'') (if take 2 k = ''*.'' then drop 2 k else k)"

definition NextWildcard :: "Uri \<Rightarrow> Uri \<times> uri_error option" where
  "NextWildcard k =
     (if CHR ''/'' \<in> set k then (strip_segment k, None)
      else if host_rest k = [] then (k, Some NoFallback)
      else (CHR ''*'' # host_rest k, None))"

text \<open>The segments of a key: \<^verbatim>\<open>strings.Split(key, "/")\<close>, never the empty list.\<close>

fun parts :: "string \<Rightarrow> string list" where
  "parts [] = [[]]"
| "parts (c # cs) =
     (if c = CHR ''/'' then [] # parts cs
      else (c # hd (parts cs)) # tl (parts cs))"

subsection \<open>Endpoints and pools\<close>

record ModificationTag =
  Guid :: string
  Index :: nat

record Endpoint =
  CanonicalAddr :: string
  ApplicationId :: string
  PrivateInstanceIndex :: string
  PrivateInstanceId :: string
  Tags :: "(string \<times> string) list"
  staleThreshold :: int
  modificationTag :: ModificationTag
  updated_at :: int

record Pool =
  contextPath :: string
  retryAfterFailure :: int
  endpoints :: "Endpoint list"
  nextIdx :: nat

text \<open>
  Modelled from the spec: \<^verbatim>\<open>route.NewPool\<close> and the methods of \<^verbatim>\<open>route.Pool\<close> are not among
  the sources. Spec 3 and 4.2: a pool is an ordered sequence of endpoints, no two with the
  same canonical address, with a round-robin cursor.
\<close>

definition NewPool :: "int \<Rightarrow> string \<Rightarrow> Pool" where
  "NewPool threshold cp =
     \<lparr>contextPath = cp, retryAfterFailure = threshold, endpoints = [], nextIdx = 0\<rparr>"

definition same_addr :: "Endpoint \<Rightarrow> Endpoint \<Rightarrow> bool" where
  "same_addr a b = (CanonicalAddr a = CanonicalAddr b)"

definition newer_tag :: "ModificationTag \<Rightarrow> ModificationTag \<Rightarrow> bool" where
  "newer_tag new old = (Index old < Index new)"

text \<open>
  Modelled from the spec: \<^verbatim>\<open>Pool.Put\<close>. Spec 4.2: ``inserts or updates; returns true if
  this is a new canonical address, false on a modification-tag upgrade or no-op. Updates
  updated_at to clock-now''; spec 3: ``the one with the strictly newer tag replaces the
  older; equal or older is ignored (update updated_at only if newer)''. The round-tripper
  test among the sources puts the endpoint a pool already holds and expects true: putting
  the stored endpoint again refreshes its time stamp and returns true.
\<close>

definition same_endpoint :: "Endpoint \<Rightarrow> Endpoint \<Rightarrow> bool" where
  "same_endpoint a b = (a\<lparr>updated_at := 0\<rparr> = b\<lparr>updated_at := 0\<rparr>)"

fun put_list :: "int \<Rightarrow> Endpoint \<Rightarrow> Endpoint list \<Rightarrow> Endpoint list \<times> bool" where
  "put_list now e [] = ([e\<lparr>updated_at := now\<rparr>], True)"
| "put_list now e (x # xs) =
     (if same_addr x e
      then (if same_endpoint x e then (e\<lparr>updated_at := now\<rparr> # xs, True)
            else if newer_tag (modificationTag e) (modificationTag x)
            then (e\<lparr>updated_at := now\<rparr> # xs, False)
            else (x # xs, False))
      else (x # fst (put_list now e xs), snd (put_list now e xs)))"

definition Put :: "int \<Rightarrow> Pool \<Rightarrow> Endpoint \<Rightarrow> Pool \<times> bool" where
  "Put now p e =
     (p\<lparr>endpoints := fst (put_list now e (endpoints p))\<rparr>, snd (put_list now e (endpoints p)))"

text \<open>Modelled from the spec: \<^verbatim>\<open>Pool.Remove\<close>, ``deletes by canonical address; returns true
  on hit''.\<close>

definition Remove :: "Pool \<Rightarrow> Endpoint \<Rightarrow> Pool \<times> bool" where
  "Remove p e =
     (p\<lparr>endpoints := filter (\<lambda>x. \<not> same_addr x e) (endpoints p)\<rparr>,
      list_ex (\<lambda>x. same_addr x e) (endpoints p))"

definition IsEmpty :: "Pool \<Rightarrow> bool" where
  "IsEmpty p = (endpoints p = [])"

text \<open>Modelled from the spec: \<^verbatim>\<open>Pool.Each\<close>, ``applies fn to each endpoint''; the callback
  is a state transformer run over the endpoints in pool order.\<close>

definition Each :: "Pool \<Rightarrow> (Endpoint \<Rightarrow> 's \<Rightarrow> 's) \<Rightarrow> 's \<Rightarrow> 's" where
  "Each p fn s = fold fn (endpoints p) s"

text \<open>
  Modelled from the spec: \<^verbatim>\<open>Pool.PruneEndpoints\<close>. Spec 4.2: ``deletes endpoints whose
  updated_at is older than now - threshold, returns them''; spec 3: an endpoint carries a
  ``stale-threshold override (0 = use pool default)'', so the threshold of an endpoint is
  its override unless that is 0, and the threshold passed in otherwise. \<open>now\<close> is the clock
  reading of the call. The specification words the comparison in two ways (4.2: ``older
  than''; 8: ``not updated for \<ge> stale_threshold''); whether an endpoint exactly its threshold
  old is deleted is the parameter \<open>inclusive\<close>. The result is the pool and the removed
  endpoints.
\<close>

definition effective_threshold :: "int \<Rightarrow> Endpoint \<Rightarrow> int" where
  "effective_threshold threshold e =
     (if staleThreshold e = 0 then threshold else staleThreshold e)"

definition stale :: "bool \<Rightarrow> int \<Rightarrow> int \<Rightarrow> Endpoint \<Rightarrow> bool" where
  "stale inclusive now threshold e =
     (if inclusive then effective_threshold threshold e \<le> now - updated_at e
      else effective_threshold threshold e < now - updated_at e)"

definition PruneEndpoints :: "bool \<Rightarrow> int \<Rightarrow> Pool \<Rightarrow> int \<Rightarrow> Pool \<times> Endpoint list" where
  "PruneEndpoints inclusive now p threshold =
     (p\<lparr>endpoints := filter (\<lambda>e. \<not> stale inclusive now threshold e) (endpoints p)\<rparr>,
      filter (stale inclusive now threshold) (endpoints p))"

text \<open>Modelled from the spec: \<^verbatim>\<open>Pool.MarkUpdated\<close>, ``sets updated_at of all endpoints to
  t''.\<close>

definition MarkUpdated :: "Pool \<Rightarrow> int \<Rightarrow> Pool" where
  "MarkUpdated p t = p\<lparr>endpoints := map (\<lambda>e. e\<lparr>updated_at := t\<rparr>) (endpoints p)\<rparr>"

subsection \<open>The trie of pools\<close>

text \<open>
  Modelled from the spec: \<^verbatim>\<open>container.Trie\<close> is not among the sources. Spec 3: a trie node
  ``per path segment, holds optional Pool, mapping from segment-string to child node''.
  The parent back-reference serves only the upward snip, which the recursive functions
  below perform on the way back from the node.
\<close>

datatype Trie = Trie (Pool: "Pool option") (ChildNodes: "(string, Trie) fmap")

definition NewTrie :: Trie where
  "NewTrie = Trie None fmempty"

primrec find_parts :: "string list \<Rightarrow> Trie \<Rightarrow> Pool option" where
  "find_parts [] t = Pool t"
| "find_parts (s # ss) t =
     (case fmlookup (ChildNodes t) s of None \<Rightarrow> None | Some c \<Rightarrow> find_parts ss c)"

primrec insert_parts :: "string list \<Rightarrow> Pool \<Rightarrow> Trie \<Rightarrow> Trie" where
  "insert_parts [] p t = Trie (Some p) (ChildNodes t)"
| "insert_parts (s # ss) p t =
     Trie (Pool t)
       (fmupd s
          (insert_parts ss p
             (case fmlookup (ChildNodes t) s of None \<Rightarrow> NewTrie | Some c \<Rightarrow> c))
          (ChildNodes t))"

text \<open>Spec 4.3, snip rule: ``a node becomes removable when it has no pool AND no
  children''.\<close>

definition removable :: "Trie \<Rightarrow> bool" where
  "removable t = (Pool t = None \<and> ChildNodes t = fmempty)"

primrec delete_parts :: "string list \<Rightarrow> Trie \<Rightarrow> Trie" where
  "delete_parts [] t = Trie None (ChildNodes t)"
| "delete_parts (s # ss) t =
     (case fmlookup (ChildNodes t) s of
        None \<Rightarrow> t
      | Some c \<Rightarrow>
          (if removable (delete_parts ss c)
           then Trie (Pool t) (fmdrop s (ChildNodes t))
           else Trie (Pool t) (fmupd s (delete_parts ss c) (ChildNodes t))))"

text \<open>Modelled from the spec: \<^verbatim>\<open>Trie.Find\<close> locates the pool at a key; \<^verbatim>\<open>Trie.MatchUri\<close> is
  the ``exact match'' that \<^verbatim>\<open>Lookup\<close> attempts (spec 4.3); \<^verbatim>\<open>Trie.Insert\<close> stores a pool at
  a key, creating the nodes on the way; \<^verbatim>\<open>Trie.Delete\<close> ``deletes the trie node and
  collapses empty ancestors''.\<close>

definition Find :: "Trie \<Rightarrow> Uri \<Rightarrow> Pool option" where
  "Find t uri = find_parts (parts uri) t"

definition MatchUri :: "Trie \<Rightarrow> Uri \<Rightarrow> Pool option" where
  "MatchUri t uri = find_parts (parts uri) t"

definition Insert :: "Trie \<Rightarrow> Uri \<Rightarrow> Pool \<Rightarrow> Trie" where
  "Insert t uri p = insert_parts (parts uri) p t"

definition Delete :: "Trie \<Rightarrow> Uri \<Rightarrow> Trie" where
  "Delete t uri = delete_parts (parts uri) t"

text \<open>Modelled from the spec: \<^verbatim>\<open>Trie.EachNodeWithPool\<close> with a callback that updates the
  pool of the node it visits.\<close>

primrec EachNodeWithPool :: "(Pool \<Rightarrow> Pool) \<Rightarrow> Trie \<Rightarrow> Trie" where
  "EachNodeWithPool f (Trie p cs) = Trie (map_option f p) (fmmap (EachNodeWithPool f) cs)"

text \<open>Modelled from the spec: \<^verbatim>\<open>Trie.Snip\<close>, seen from the parent: the children that are
  removable are dropped.\<close>

definition snip_children :: "(string, Trie) fmap \<Rightarrow> (string, Trie) fmap" where
  "snip_children cs =
     fmfilter (\<lambda>k. case fmlookup cs k of None \<Rightarrow> False | Some c \<Rightarrow> \<not> removable c) cs"

definition prune_pool :: "bool \<Rightarrow> int \<Rightarrow> int \<Rightarrow> Pool \<Rightarrow> Pool option" where
  "prune_pool inclusive threshold now p =
     (let p' = fst (PruneEndpoints inclusive now p threshold)
      in if IsEmpty p' then None else Some p')"

text \<open>
  The callback of \<^verbatim>\<open>pruneStaleDroplets\<close> run at every node with a pool (spec 4.3, step 3):
  ``PruneEndpoints(stale_threshold); if the pool is now empty, remove the node and snip
  empty ancestors''. The source passes no time to \<^verbatim>\<open>PruneEndpoints\<close>: every call reads the
  clock itself, and \<open>clock path\<close> is the reading of the call at the node reached by the
  segments \<open>path\<close>.
\<close>

primrec prune_nodes ::
  "bool \<Rightarrow> int \<Rightarrow> Trie \<Rightarrow> (string list \<Rightarrow> int) \<Rightarrow> string list \<Rightarrow> Trie" where
  "prune_nodes inclusive threshold (Trie p cs) clock path =
     Trie (case p of None \<Rightarrow> None | Some q \<Rightarrow> prune_pool inclusive threshold (clock path) q)
          (snip_children
             (fmmap_keys (\<lambda>k pruned. pruned clock (path @ [k]))
                (fmmap (prune_nodes inclusive threshold) cs)))"

text \<open>The number of nodes at which \<^verbatim>\<open>PruneEndpoints\<close> returns endpoints: at each of them
  the callback logs \<^verbatim>\<open>pruned-route\<close>.\<close>

primrec pruned_routes ::
  "bool \<Rightarrow> int \<Rightarrow> Trie \<Rightarrow> (string list \<Rightarrow> int) \<Rightarrow> string list \<Rightarrow> nat" where
  "pruned_routes inclusive threshold (Trie p cs) clock path =
     (case p of
        None \<Rightarrow> 0
      | Some q \<Rightarrow> if snd (PruneEndpoints inclusive (clock path) q threshold) = [] then 0 else 1)
     + (\<Sum>k \<in> fset (fmdom cs).
          case fmlookup (fmmap (pruned_routes inclusive threshold) cs) k of
            None \<Rightarrow> 0
          | Some counted \<Rightarrow> counted clock (path @ [k]))"

subsection \<open>The registry\<close>

datatype PruneStatus = CONNECTED | DISCONNECTED

text \<open>The calls received by the metrics reporter and the events received by the logger,
  in the order in which they are made.\<close>

datatype report =
    CaptureRegistryMessage Endpoint
  | CaptureUnregistryMessage Endpoint
  | CaptureLookupTime int

datatype log_entry = Debug string | Info string | Error string

text \<open>
  The struct \<^verbatim>\<open>RouteRegistry\<close>. The suspension predicate \<^verbatim>\<open>suspendPruning\<close> is a closure over
  the state of the message bus: the value it returns on a tick is an argument of
  \<^verbatim>\<open>pruneStaleDroplets\<close>. The mutex and the ticker are left out.
\<close>

record RouteRegistry =
  logger :: "log_entry list"
  byURI :: Trie
  pruningStatus :: PruneStatus
  pruneStaleDropletsInterval :: int
  dropletStaleThreshold :: int
  reporter :: "report list"
  timeOfLastUpdate :: int
  routerGroupGUID :: string

text \<open>Go's integer division truncates towards zero.\<close>

definition go_div :: "int \<Rightarrow> int \<Rightarrow> int" where
  "go_div a b = sgn a * sgn b * (\<bar>a\<bar> div \<bar>b\<bar>)"

text \<open>\<^verbatim>\<open>NewRouteRegistry\<close>: an empty trie, status CONNECTED (the zero value), time of last
  update the zero time.\<close>

definition NewRouteRegistry :: "int \<Rightarrow> int \<Rightarrow> string \<Rightarrow> RouteRegistry" where
  "NewRouteRegistry interval threshold guid =
     \<lparr>logger = [], byURI = NewTrie, pruningStatus = CONNECTED,
      pruneStaleDropletsInterval = interval, dropletStaleThreshold = threshold,
      reporter = [], timeOfLastUpdate = 0, routerGroupGUID = guid\<rparr>"

definition parseContextPath :: "Uri \<Rightarrow> string" where
  "parseContextPath uri =
     (let trimmed = (if take 1 uri = ''/'' then drop 1 uri else uri);
          cp = (if CHR ''/'' \<in> set trimmed
                then CHR ''/'' # tl (dropWhile (\<lambda>c. c \<noteq> CHR ''/'') trimmed)
                else ''/'')
      in takeWhile (\<lambda>c. c \<noteq> CHR ''?'') cp)"

text \<open>
  \<^verbatim>\<open>Register\<close>. \<open>t\<close> is the clock reading taken at entry, \<open>tput\<close> the one \<^verbatim>\<open>Pool.Put\<close> takes.
  The pool is a pointer into the trie: the pool that \<^verbatim>\<open>Put\<close> has changed is stored back at
  its key.
\<close>

definition Register :: "int \<Rightarrow> int \<Rightarrow> RouteRegistry \<Rightarrow> Uri \<Rightarrow> Endpoint \<Rightarrow> RouteRegistry" where
  "Register t tput r uri endpoint =
     (let routekey = RouteKey uri;
          found = Find (byURI r) routekey;
          pool = (case found of
                    None \<Rightarrow> NewPool (go_div (dropletStaleThreshold r) 4) (parseContextPath uri)
                  | Some p \<Rightarrow> p);
          log1 = (case found of
                    None \<Rightarrow> logger r @ [Debug ''uri-added'']
                  | Some p \<Rightarrow> logger r);
          endpointAdded = snd (Put tput pool endpoint);
          trie = Insert (byURI r) routekey (fst (Put tput pool endpoint))
      in r\<lparr>byURI := trie,
           timeOfLastUpdate := t,
           reporter := reporter r @ [CaptureRegistryMessage endpoint],
           logger := log1 @ [Debug (if endpointAdded then ''endpoint-registered''
                                    else ''endpoint-not-registered'')]\<rparr>)"

text \<open>\<^verbatim>\<open>Unregister\<close>.\<close>

definition Unregister :: "RouteRegistry \<Rightarrow> Uri \<Rightarrow> Endpoint \<Rightarrow> RouteRegistry" where
  "Unregister r uri endpoint =
     (let key = RouteKey uri;
          r1 = (case Find (byURI r) key of
                  None \<Rightarrow> r
                | Some pool \<Rightarrow>
                    (let pool' = fst (Remove pool endpoint);
                         endpointRemoved = snd (Remove pool endpoint);
                         trie = Insert (byURI r) key pool'
                     in r\<lparr>logger := logger r @
                                 [Debug (if endpointRemoved then ''endpoint-unregistered''
                                         else ''endpoint-not-unregistered'')],
                          byURI := (if IsEmpty pool' then Delete trie key else trie)\<rparr>))
      in r1\<lparr>reporter := reporter r1 @ [CaptureUnregistryMessage endpoint]\<rparr>)"

text \<open>
  \<^verbatim>\<open>Lookup\<close>. The loop \<^verbatim>\<open>for pool == nil && err == nil\<close> carries the key, the error of
  the last \<^verbatim>\<open>NextWildcard\<close> and the pool of the last \<^verbatim>\<open>MatchUri\<close>.
\<close>

definition wildcard_measure :: "Uri \<Rightarrow> nat" where
  "wildcard_measure k =
     2 * (count_list k (CHR ''/'') + count_list k (CHR ''.''))
       + (if take 2 k = ''*.'' then 0 else 1)"

function Lookup_loop ::
  "Trie \<Rightarrow> Uri \<Rightarrow> uri_error option \<Rightarrow> Pool option \<Rightarrow> Pool option" where
  "Lookup_loop t uri err pool =
     (if pool = None \<and> err = None
      then Lookup_loop t (fst (NextWildcard uri)) (snd (NextWildcard uri))
             (MatchUri t (fst (NextWildcard uri)))
      else pool)"
  by pat_completeness simp

text \<open>\<open>started\<close> and \<open>endLookup\<close> are the two clock readings of \<^verbatim>\<open>Lookup\<close>.\<close>

definition Lookup :: "int \<Rightarrow> int \<Rightarrow> RouteRegistry \<Rightarrow> Uri \<Rightarrow> Pool option \<times> RouteRegistry" where
  "Lookup started endLookup r uri =
     (let key = RouteKey uri;
          pool = Lookup_loop (byURI r) key None (MatchUri (byURI r) key)
      in (pool, r\<lparr>reporter := reporter r @ [CaptureLookupTime (endLookup - started)]\<rparr>))"

text \<open>
  \<^verbatim>\<open>LookupWithInstance\<close>. The callback given to \<^verbatim>\<open>Each\<close> assigns the variable
  \<^verbatim>\<open>surgicalPool\<close>; \<open>tput\<close> is the clock reading of \<^verbatim>\<open>Put\<close>.
\<close>

definition surgical :: "int \<Rightarrow> string \<Rightarrow> string \<Rightarrow> Endpoint \<Rightarrow> Pool option \<Rightarrow> Pool option" where
  "surgical tput appID appIndex e surgicalPool =
     (if ApplicationId e = appID \<and> PrivateInstanceIndex e = appIndex
      then Some (fst (Put tput (NewPool 0 []) e))
      else surgicalPool)"

definition LookupWithInstance ::
  "int \<Rightarrow> int \<Rightarrow> int \<Rightarrow> RouteRegistry \<Rightarrow> Uri \<Rightarrow> string \<Rightarrow> string \<Rightarrow> Pool option \<times> RouteRegistry" where
  "LookupWithInstance started endLookup tput r uri appID appIndex =
     (let found = Lookup started endLookup r (RouteKey uri)
      in case fst found of
           None \<Rightarrow> (None, snd found)
         | Some p \<Rightarrow> (Each p (surgical tput appID appIndex) None, snd found))"

text \<open>\<^verbatim>\<open>freshenRoutes\<close>; \<open>now\<close> is its clock reading.\<close>

definition freshenRoutes :: "int \<Rightarrow> RouteRegistry \<Rightarrow> RouteRegistry" where
  "freshenRoutes now r = r\<lparr>byURI := EachNodeWithPool (\<lambda>p. MarkUpdated p now) (byURI r)\<rparr>"

text \<open>
  \<^verbatim>\<open>pruneStaleDroplets\<close>, one prune tick. \<open>suspended\<close> is what \<^verbatim>\<open>r.suspendPruning()\<close> returns
  on this tick, \<open>tfresh\<close> the clock reading of \<^verbatim>\<open>freshenRoutes\<close>, \<open>clock\<close> the clock readings
  of the calls of \<^verbatim>\<open>PruneEndpoints\<close>, one for each node. The log entries carry their
  event names only, so the \<^verbatim>\<open>pruned-route\<close> entries of a tick are equal and Go's order of
  map iteration does not show.
\<close>

definition pruneStaleDroplets ::
  "bool \<Rightarrow> int \<Rightarrow> (string list \<Rightarrow> int) \<Rightarrow> bool \<Rightarrow> RouteRegistry \<Rightarrow> RouteRegistry" where
  "pruneStaleDroplets inclusive tfresh clock suspended r =
     (if suspended
      then r\<lparr>logger := logger r @ [Info ''prune-suspended''], pruningStatus := DISCONNECTED\<rparr>
      else
        (let r1 = (if pruningStatus r = DISCONNECTED
                   then (freshenRoutes tfresh r)
                        \<lparr>logger := logger r @ [Debug ''prune-unsuspended-refresh-routes-start'',
                                               Debug ''prune-unsuspended-refresh-routes-complete'']\<rparr>
                   else r);
             r2 = r1\<lparr>pruningStatus := CONNECTED\<rparr>
         in r2\<lparr>byURI := prune_nodes inclusive (dropletStaleThreshold r2) (byURI r2) clock [],
               logger := logger r2 @
                  replicate (pruned_routes inclusive (dropletStaleThreshold r2) (byURI r2) clock [])
                    (Info ''pruned-route'')\<rparr>))"

text \<open>\<^verbatim>\<open>TimeOfLastUpdate\<close>.\<close>

definition TimeOfLastUpdate :: "RouteRegistry \<Rightarrow> int" where
  "TimeOfLastUpdate r = timeOfLastUpdate r"


subsection \<open>The lookup order of the specification\<close>

text \<open>
  The lookup order of the specification (4.1, 4.3): the exact key first, then the
  successive results of \<^verbatim>\<open>NextWildcard\<close>, the first pool found being returned, and no pool
  when \<^verbatim>\<open>NextWildcard\<close> is exhausted.
\<close>

function Lookup_spec :: "Trie \<Rightarrow> Uri \<Rightarrow> Pool option" where
  "Lookup_spec t key =
     (case MatchUri t key of
        Some p \<Rightarrow> Some p
      | None \<Rightarrow>
          (case snd (NextWildcard key) of
             Some NoFallback \<Rightarrow> None
           | None \<Rightarrow> Lookup_spec t (fst (NextWildcard key))))"
  by pat_completeness simp

subsection \<open>The states of the registry\<close>

text \<open>The registries that the operations of \<^verbatim>\<open>registry.go\<close> produce from a new one.\<close>

inductive reachable :: "RouteRegistry \<Rightarrow> bool" where
  new: "reachable (NewRouteRegistry interval threshold guid)"
| register: "reachable r \<Longrightarrow> reachable (Register t tput r uri endpoint)"
| unregister: "reachable r \<Longrightarrow> reachable (Unregister r uri endpoint)"
| lookup: "reachable r \<Longrightarrow> reachable (snd (Lookup started endLookup r uri))"
| lookup_with_instance:
    "reachable r \<Longrightarrow>
     reachable (snd (LookupWithInstance started endLookup tput r uri appID appIndex))"
| prune: "reachable r \<Longrightarrow> reachable (pruneStaleDroplets inclusive tfresh clock suspended r)"

text \<open>No pool stored in the trie is empty.\<close>

definition pools_nonempty :: "Trie \<Rightarrow> bool" where
  "pools_nonempty t = (\<forall>ks p. find_parts ks t = Some p \<longrightarrow> endpoints p \<noteq> [])"

subsection \<open>Runs of registry operations\<close>

datatype op =
    OpRegister int int Uri Endpoint
  | OpUnregister Uri Endpoint
  | OpLookup int int Uri
  | OpLookupWithInstance int int int Uri string string
  | OpPrune bool int "string list \<Rightarrow> int" bool

fun apply_op :: "op \<Rightarrow> RouteRegistry \<Rightarrow> RouteRegistry" where
  "apply_op (OpRegister t tput uri endpoint) r = Register t tput r uri endpoint"
| "apply_op (OpUnregister uri endpoint) r = Unregister r uri endpoint"
| "apply_op (OpLookup started endLookup uri) r = snd (Lookup started endLookup r uri)"
| "apply_op (OpLookupWithInstance started endLookup tput uri appID appIndex) r =
     snd (LookupWithInstance started endLookup tput r uri appID appIndex)"
| "apply_op (OpPrune inclusive tfresh clock suspended) r =
     pruneStaleDroplets inclusive tfresh clock suspended r"

definition run :: "op list \<Rightarrow> RouteRegistry \<Rightarrow> RouteRegistry" where
  "run ops r = fold apply_op ops r"

text \<open>The operations that may take the endpoint \<open>e\<close> away from the URI \<open>u\<close>: a prune tick,
  and an \<^verbatim>\<open>Unregister\<close> of the same route key and the same canonical address (the equality
  key of endpoints).\<close>

fun interferes :: "Uri \<Rightarrow> Endpoint \<Rightarrow> op \<Rightarrow> bool" where
  "interferes u e (OpUnregister uri endpoint) = (RouteKey uri = RouteKey u \<and> same_addr endpoint e)"
| "interferes u e (OpPrune inclusive tfresh clock suspended) = True"
| "interferes u e other = False"

text \<open>The pool stored at the route key of \<open>u\<close> has an endpoint with the address of \<open>e\<close>.\<close>

definition has_endpoint :: "Trie \<Rightarrow> Uri \<Rightarrow> Endpoint \<Rightarrow> bool" where
  "has_endpoint t u e =
     (case Find t (RouteKey u) of
        None \<Rightarrow> False
      | Some p \<Rightarrow> list_ex (\<lambda>x. same_addr x e) (endpoints p))"

text \<open>\<^verbatim>\<open>Put\<close> takes the endpoint \<open>e\<close> into a list of endpoints: no endpoint of the list has
  its canonical address, or the first that has it is \<open>e\<close> itself or carries a strictly
  older modification tag.\<close>

definition put_accepts :: "Endpoint \<Rightarrow> Endpoint list \<Rightarrow> bool" where
  "put_accepts e xs =
     (case find (\<lambda>x. same_addr x e) xs of
        None \<Rightarrow> True
      | Some x \<Rightarrow> same_endpoint x e \<or> newer_tag (modificationTag e) (modificationTag x))"

text \<open>\<^verbatim>\<open>Register(u, e)\<close> stores \<open>e\<close>: the pool at the route key of \<open>u\<close>, if there is one, takes
  it.\<close>

definition register_accepts :: "RouteRegistry \<Rightarrow> Uri \<Rightarrow> Endpoint \<Rightarrow> bool" where
  "register_accepts r u e =
     (case Find (byURI r) (RouteKey u) of
        None \<Rightarrow> True
      | Some p \<Rightarrow> put_accepts e (endpoints p))"

text \<open>The operations that may put another endpoint in the place of \<open>e\<close> under the URI \<open>u\<close>:
  a \<^verbatim>\<open>Register\<close> of the same route key, of another endpoint with the canonical address of
  \<open>e\<close> and a strictly newer modification tag.\<close>

fun replaces :: "Uri \<Rightarrow> Endpoint \<Rightarrow> op \<Rightarrow> bool" where
  "replaces u e (OpRegister t tput uri endpoint) =
     (RouteKey uri = RouteKey u \<and> same_addr endpoint e \<and> \<not> same_endpoint endpoint e
      \<and> newer_tag (modificationTag endpoint) (modificationTag e))"
| "replaces u e other = False"

text \<open>The pool stored at the route key of \<open>u\<close> holds \<open>e\<close>, whatever its time stamp.\<close>

definition holds_endpoint :: "Trie \<Rightarrow> Uri \<Rightarrow> Endpoint \<Rightarrow> bool" where
  "holds_endpoint t u e =
     (case Find t (RouteKey u) of
        None \<Rightarrow> False
      | Some p \<Rightarrow> list_ex (\<lambda>x. same_endpoint x e) (endpoints p))"

section \<open>The proxy round tripper (proxy/round_tripper)\<close>

text \<open>
  Of the round tripper the sources hold the test suite only. \<^verbatim>\<open>RoundTrip\<close> and what it uses
  are modelled from the specification (4.4, 6, 7); the strings the tests compare with are
  taken from the tests.
\<close>

subsection \<open>Errors, requests, responses\<close>

datatype cause = Plain string | Syscall string string

datatype error =
    ContextMissing string
  | NoEndpointsAvailable
  | OpError string cause
  | ErrorString string

text \<open>The message of an error; for a missing context key the text the tests look for.\<close>

fun error_message :: "error \<Rightarrow> string" where
  "error_message (ContextMissing key) = key @ '' not set on context''"
| "error_message NoEndpointsAvailable = ''No endpoints available''"
| "error_message (OpError op (Plain m)) = op @ '': '' @ m"
| "error_message (OpError op (Syscall call errno)) = op @ '': '' @ call @ '': '' @ errno"
| "error_message (ErrorString m) = m"

text \<open>
  Modelled from the spec: the partition of transport errors (4.4). Retryable are the TCP
  dial failure (\<^verbatim>\<open>op == "dial"\<close>) and the connection reset by peer (\<^verbatim>\<open>ECONNRESET\<close> on
  read), the two cases the tests assert; every other error is non-retryable.
\<close>

fun retryableError :: "error \<Rightarrow> bool" where
  "retryableError (OpError op c) = (op = ''dial'' \<or> c = Syscall ''read'' ''ECONNRESET'')"
| "retryableError other = False"

record Request =
  URL :: string
  Host :: string
  VcapTrace :: "string option"

record Response =
  StatusCode :: nat
  Header :: "(string \<times> string) list"

record ResponseWriter =
  Code :: nat
  rwHeader :: "(string \<times> string) list"
  Body :: string

record AccessLogRecord =
  alrStatusCode :: nat
  RouteEndpoint :: "Endpoint option"

text \<open>The values on the request's context (6): the first three are required.\<close>

record ReqContext =
  ctxRoutePool :: "Pool option"
  ctxProxyResponseWriter :: "ResponseWriter option"
  ctxAccessLogRecord :: "AccessLogRecord option"
  ctxRouteServiceURL :: "string option"

datatype metric = CaptureRoutingRequest Endpoint | CaptureBadGateway

record Config =
  trace_key :: string
  router_ip :: string
  router_group_guid :: string

definition retry_limit :: nat where
  "retry_limit = 3"

text \<open>Modelled from the spec: the constant \<^verbatim>\<open>BadGatewayMessage\<close> is ``project-defined; any
  stable string is acceptable''.\<close>

definition BadGatewayMessage :: string where
  "BadGatewayMessage = ''502 Bad Gateway: Registered endpoint failed to handle the request.''"

definition StatusBadGateway :: nat where
  "StatusBadGateway = 502"

definition set_header :: "string \<Rightarrow> string \<Rightarrow> (string \<times> string) list \<Rightarrow> (string \<times> string) list" where
  "set_header k v h = (k, v) # filter (\<lambda>kv. fst kv \<noteq> k) h"

definition get_header :: "string \<Rightarrow> (string \<times> string) list \<Rightarrow> string" where
  "get_header k h = (case map_of h k of None \<Rightarrow> [] | Some v \<Rightarrow> v)"

subsection \<open>The iterator of a pool\<close>

text \<open>
  Modelled from the spec: \<^verbatim>\<open>Pool.Iterator\<close> (4.2), ``a stateful cursor advancing
  round-robin over a snapshot of the current membership'', with \<^verbatim>\<open>EndpointFailed\<close> marking
  ``the last-returned endpoint as failed for the remainder of this iteration (used to bias
  retries to distinct endpoints)''. Iterator algorithm: ``capture start cursor, advance
  modularly over a snapshot; skip endpoints marked failed; stop after one full revolution
  returning NoEndpointsAvailable''. \<^verbatim>\<open>Next\<close> returns no endpoint when the revolution finds
  none that is not marked failed; the caller turns that into \<^verbatim>\<open>NoEndpointsAvailable\<close>.
\<close>

record EndpointIterator =
  snapshot :: "Endpoint list"
  cursor :: nat
  failed :: "string list"
  lastReturned :: "Endpoint option"

definition Iterator :: "Pool \<Rightarrow> EndpointIterator" where
  "Iterator p = \<lparr>snapshot = endpoints p, cursor = nextIdx p, failed = [], lastReturned = None\<rparr>"

definition revolution :: "EndpointIterator \<Rightarrow> nat list" where
  "revolution it =
     map (\<lambda>i. (cursor it + i) mod length (snapshot it)) [0 ..< length (snapshot it)]"

definition Next :: "EndpointIterator \<Rightarrow> Endpoint option \<times> EndpointIterator" where
  "Next it =
     (if snapshot it = [] then (None, it)
      else
        (case filter (\<lambda>i. CanonicalAddr (snapshot it ! i) \<notin> set (failed it)) (revolution it) of
           i # rest \<Rightarrow>
             (Some (snapshot it ! i),
              it\<lparr>cursor := Suc i mod length (snapshot it),
                 lastReturned := Some (snapshot it ! i)\<rparr>)
         | [] \<Rightarrow> (None, it)))"

definition EndpointFailed :: "EndpointIterator \<Rightarrow> EndpointIterator" where
  "EndpointFailed it =
     (case lastReturned it of
        None \<Rightarrow> it
      | Some e \<Rightarrow> it\<lparr>failed := CanonicalAddr e # failed it\<rparr>)"

subsection \<open>RoundTrip\<close>

text \<open>
  What a \<^verbatim>\<open>RoundTrip\<close> changes on its way: the response writer, the access log record, the
  requests handed to the underlying transport, the calls to the metrics reporter and the
  log, each list in the order of the calls. The underlying transport is a function of the
  number of calls made before and of the request.
\<close>

record RT =
  rw :: ResponseWriter
  alr :: AccessLogRecord
  transportCalls :: "Request list"
  metrics :: "metric list"
  rtLogger :: "log_entry list"

type_synonym transport = "nat \<Rightarrow> Request \<Rightarrow> error + Response"

type_synonym outcome = "(Response option \<times> error option) \<times> RT"

text \<open>
  Modelled from the spec: the failure exit of \<^verbatim>\<open>RoundTrip\<close> (4.4): ``write 502 with body
  BadGatewayMessage, header X-Cf-RouterError: endpoint_failure, stamp AccessLogRecord
  (StatusCode=502 ...), capture CaptureBadGateway'', and the error is returned.
\<close>

definition badGateway :: "error \<Rightarrow> RT \<Rightarrow> outcome" where
  "badGateway e st =
     ((None, Some e),
      st\<lparr>rw := (rw st)\<lparr>Code := StatusBadGateway,
                       rwHeader := set_header ''X-Cf-RouterError'' ''endpoint_failure''
                                     (rwHeader (rw st)),
                       Body := Body (rw st) @ BadGatewayMessage\<rparr>,
         alr := (alr st)\<lparr>alrStatusCode := StatusBadGateway\<rparr>,
         metrics := metrics st @ [CaptureBadGateway]\<rparr>)"

text \<open>Modelled from the spec: the trace headers (4.4), set when the request carries
  \<^verbatim>\<open>X-Vcap-Trace\<close> equal to the configured trace key.\<close>

definition setTraceHeaders :: "Config \<Rightarrow> Request \<Rightarrow> Endpoint \<Rightarrow> Response \<Rightarrow> Response" where
  "setTraceHeaders cfg req ep resp =
     (if VcapTrace req = Some (trace_key cfg)
      then resp\<lparr>Header :=
             set_header ''X-Cf-RouteEndpoint'' (CanonicalAddr ep)
               (set_header ''X-Vcap-Backend'' (CanonicalAddr ep)
                  (set_header ''X-Vcap-Router'' (router_ip cfg) (Header resp)))\<rparr>
      else resp)"

text \<open>
  Modelled from the spec: normal mode (4.4, steps a to f), with the number of attempts
  left as first argument and the error of the last attempt as \<open>lastErr\<close>. When the
  iterator has no endpoint the access log record is stamped with ``RouteEndpoint=null
  when none'': null when no attempt was made before, that is when no endpoint was selected
  (7: ``nil only when no endpoint was ever selected'').
\<close>

fun backend_loop ::
  "nat \<Rightarrow> Config \<Rightarrow> transport \<Rightarrow> Request \<Rightarrow> EndpointIterator \<Rightarrow> error option \<Rightarrow> RT \<Rightarrow> outcome" where
  "backend_loop 0 cfg tr req it lastErr st =
     (case lastErr of None \<Rightarrow> ((None, None), st) | Some e \<Rightarrow> badGateway e st)"
| "backend_loop (Suc n) cfg tr req it lastErr st =
     (case fst (Next it) of
        None \<Rightarrow>
          badGateway NoEndpointsAvailable
            (case lastErr of
               None \<Rightarrow> st\<lparr>alr := (alr st)\<lparr>RouteEndpoint := None\<rparr>\<rparr>
             | Some e \<Rightarrow> st)
      | Some ep \<Rightarrow>
          (let req' = req\<lparr>URL := CanonicalAddr ep, Host := CanonicalAddr ep\<rparr>;
               st1 = st\<lparr>alr := (alr st)\<lparr>RouteEndpoint := Some ep\<rparr>,
                        metrics := metrics st @ [CaptureRoutingRequest ep],
                        transportCalls := transportCalls st @ [req']\<rparr>
           in case tr (length (transportCalls st)) req' of
                Inr resp \<Rightarrow> ((Some (setTraceHeaders cfg req ep resp), None), st1)
              | Inl e \<Rightarrow>
                  (if retryableError e
                   then backend_loop n cfg tr req (EndpointFailed (snd (Next it))) (Some e)
                          (st1\<lparr>rtLogger := rtLogger st1 @ [Error ''backend-endpoint-failed'']\<rparr>)
                   else badGateway e st1)))"

text \<open>
  Modelled from the spec: route-service mode (4.4): the request goes to the route-service
  URL, the pool is not iterated and no routing request is captured; a response that is not
  2xx is logged as \<^verbatim>\<open>response\<close> and returned unchanged.
\<close>

fun route_service_loop ::
  "nat \<Rightarrow> transport \<Rightarrow> Request \<Rightarrow> string \<Rightarrow> error option \<Rightarrow> RT \<Rightarrow> outcome" where
  "route_service_loop 0 tr req rsurl lastErr st =
     (case lastErr of None \<Rightarrow> ((None, None), st) | Some e \<Rightarrow> badGateway e st)"
| "route_service_loop (Suc n) tr req rsurl lastErr st =
     (let req' = req\<lparr>URL := rsurl, Host := rsurl\<rparr>;
          st1 = st\<lparr>transportCalls := transportCalls st @ [req']\<rparr>
      in case tr (length (transportCalls st)) req' of
           Inr resp \<Rightarrow>
             ((Some resp, None),
              (if StatusCode resp < 200 \<or> 300 \<le> StatusCode resp
               then st1\<lparr>rtLogger := rtLogger st1 @ [Info ''response'']\<rparr>
               else st1))
         | Inl e \<Rightarrow>
             (if retryableError e
              then route_service_loop n tr req rsurl (Some e)
                     (st1\<lparr>rtLogger := rtLogger st1 @ [Error ''route-service-connection-failed'']\<rparr>)
              else badGateway e st1))"

text \<open>
  Modelled from the spec: \<^verbatim>\<open>RoundTrip\<close>. The three required context values are checked in
  the order RoutePool, ProxyResponseWriter, AccessLogRecord (6, 7, and the tests); a
  missing one ends the call with \<^verbatim>\<open>ContextMissing\<close> before anything else happens. The
  result is the pair returned to the caller and, unless a context value is missing, the
  state the call leaves.
\<close>

definition RoundTrip ::
  "Config \<Rightarrow> transport \<Rightarrow> ReqContext \<Rightarrow> Request \<Rightarrow> (Response option \<times> error option) \<times> RT option" where
  "RoundTrip cfg tr ctx req =
     (case ctxRoutePool ctx of
        None \<Rightarrow> ((None, Some (ContextMissing ''RoutePool'')), None)
      | Some routePool \<Rightarrow>
     (case ctxProxyResponseWriter ctx of
        None \<Rightarrow> ((None, Some (ContextMissing ''ProxyResponseWriter'')), None)
      | Some w \<Rightarrow>
     (case ctxAccessLogRecord ctx of
        None \<Rightarrow> ((None, Some (ContextMissing ''AccessLogRecord'')), None)
      | Some a \<Rightarrow>
          (let st = \<lparr>rw = w, alr = a, transportCalls = [], metrics = [], rtLogger = []\<rparr>;
               out = (case ctxRouteServiceURL ctx of
                        None \<Rightarrow> backend_loop retry_limit cfg tr req (Iterator routePool) None st
                      | Some rsurl \<Rightarrow> route_service_loop retry_limit tr req rsurl None st)
           in (fst out, Some (snd out))))))"

section \<open>Sample values\<close>

text \<open>An endpoint and the registry that holds it under \<^verbatim>\<open>foo.com\<close>, registered at time 0
  with a stale threshold of 10 clock units.\<close>

definition ex_endpoint :: Endpoint where
  "ex_endpoint =
     \<lparr>CanonicalAddr = ''10.0.0.1:8080'', ApplicationId = ''app'', PrivateInstanceIndex = ''0'',
      PrivateInstanceId = ''id-1'', Tags = [], staleThreshold = 0,
      modificationTag = \<lparr>Guid = [], Index = 0\<rparr>, updated_at = 0\<rparr>"

definition ex_registry :: RouteRegistry where
  "ex_registry = Register 0 0 (NewRouteRegistry 30 10 []) ''foo.com'' ex_endpoint"




text \<open>The endpoint of another application at the address of the first sample endpoint,
  with a newer modification tag.\<close>

definition ex_endpoint_newer :: Endpoint where
  "ex_endpoint_newer =
     ex_endpoint\<lparr>ApplicationId := ''other'', modificationTag := \<lparr>Guid = [], Index = 5\<rparr>\<rparr>"

text \<open>A second endpoint: the same application instance at another address.\<close>

definition ex_endpoint2 :: Endpoint where
  "ex_endpoint2 = ex_endpoint\<lparr>CanonicalAddr := ''10.0.0.2:8080'', PrivateInstanceId := ''id-2''\<rparr>"

text \<open>The registry with both sample endpoints under \<^verbatim>\<open>foo.com\<close>.\<close>

definition ex_registry2 :: RouteRegistry where
  "ex_registry2 = Register 0 0 ex_registry ''foo.com'' ex_endpoint2"

text \<open>Sample values for the round tripper, after the set-up of its test suite: a pool with
  one endpoint, a fresh response recorder and access log record, and transports that
  always succeed, always fail to dial, and always fail with a plain error.\<close>

definition ex_config :: Config where
  "ex_config = \<lparr>trace_key = ''my_trace_key'', router_ip = ''127.0.0.1'', router_group_guid = []\<rparr>"

definition ex_request :: Request where
  "ex_request = \<lparr>URL = ''myapp.com'', Host = ''myapp.com'', VcapTrace = None\<rparr>"

definition ex_pool :: Pool where
  "ex_pool = (NewPool 1 [])\<lparr>endpoints := [ex_endpoint]\<rparr>"

definition ex_context :: "Pool \<Rightarrow> string option \<Rightarrow> ReqContext" where
  "ex_context pool rsurl =
     \<lparr>ctxRoutePool = Some pool,
      ctxProxyResponseWriter = Some \<lparr>Code = 200, rwHeader = [], Body = []\<rparr>,
      ctxAccessLogRecord = Some \<lparr>alrStatusCode = 0, RouteEndpoint = None\<rparr>,
      ctxRouteServiceURL = rsurl\<rparr>"

definition transport_ok :: transport where
  "transport_ok k r = Inr \<lparr>StatusCode = 200, Header = []\<rparr>"



definition transport_error :: transport where
  "transport_error k r = Inl (ErrorString ''error'')"

section \<open>Properties of the registry\<close>

subsection \<open>Termination of the lookup loop\<close>

lemma count_list_dropWhile_le: "count_list (dropWhile P xs) c \<le> count_list xs c"
  by (induction xs) auto

lemma count_list_rev_eq: "count_list (rev xs) c = count_list xs c"
  by (induction xs) auto

lemma count_list_tl_le: "count_list (tl xs) c \<le> count_list xs c"
  by (cases xs) auto

lemma count_list_drop_le: "count_list (drop n xs) c \<le> count_list xs c"
  by (induction xs arbitrary: n) (auto simp: drop_Cons split: nat.splits intro: le_SucI)

lemma strip_segment_slashes:
  assumes "CHR ''/'' \<in> set k"
  shows "count_list (strip_segment k) (CHR ''/'') < count_list k (CHR ''/'')"
proof -
  let ?d = "dropWhile (\<lambda>c. c \<noteq> CHR ''/'') (rev k)"
  from assms have ne: "?d \<noteq> []" by (simp add: dropWhile_eq_Nil_conv)
  then have "hd ?d = CHR ''/''"
    using hd_dropWhile[of "\<lambda>c. c \<noteq> CHR ''/''" "rev k"] by auto
  with ne obtain rest where d: "?d = CHR ''/'' # rest" by (cases ?d) auto
  have "count_list ?d (CHR ''/'') \<le> count_list (rev k) (CHR ''/'')"
    by (rule count_list_dropWhile_le)
  with d show ?thesis by (simp add: strip_segment_def count_list_rev_eq)
qed

lemma strip_segment_count: "count_list (strip_segment k) c \<le> count_list k c"
proof -
  let ?d = "dropWhile (\<lambda>c. c \<noteq> CHR ''/'') (rev k)"
  have "count_list (tl ?d) c \<le> count_list ?d c" by (rule count_list_tl_le)
  also have "\<dots> \<le> count_list (rev k) c" by (rule count_list_dropWhile_le)
  finally show ?thesis by (simp add: strip_segment_def count_list_rev_eq)
qed

lemma host_rest_starts_with_dot:
  assumes "host_rest k \<noteq> []"
  shows "\<exists>r. host_rest k = CHR ''.'' # r"
proof -
  let ?h = "if take 2 k = ''*.'' then drop 2 k else k"
  have "hd (dropWhile (\<lambda>c. c \<noteq> CHR ''.'') ?h) = CHR ''.''"
    using assms hd_dropWhile[of "\<lambda>c. c \<noteq> CHR ''.''" ?h] unfolding host_rest_def by blast
  with assms show ?thesis
    unfolding host_rest_def by (cases "dropWhile (\<lambda>c. c \<noteq> CHR ''.'') ?h") auto
qed

lemma host_rest_count: "count_list (host_rest k) c \<le> count_list k c"
proof -
  let ?h = "if take 2 k = ''*.'' then drop 2 k else k"
  have "count_list (dropWhile (\<lambda>c. c \<noteq> CHR ''.'') ?h) c \<le> count_list ?h c"
    by (rule count_list_dropWhile_le)
  also have "\<dots> \<le> count_list k c" by (simp add: count_list_drop_le)
  finally show ?thesis by (simp add: host_rest_def)
qed

lemma host_rest_dots_after_star:
  assumes "take 2 k = ''*.''"
  shows "count_list (host_rest k) (CHR ''.'') < count_list k (CHR ''.'')"
proof -
  from assms have k: "k = ''*.'' @ drop 2 k" by (metis append_take_drop_id)
  have "count_list (host_rest k) (CHR ''.'') \<le> count_list (drop 2 k) (CHR ''.'')"
    using assms by (simp add: host_rest_def count_list_dropWhile_le)
  moreover have "count_list k (CHR ''.'') = Suc (count_list (drop 2 k) (CHR ''.''))"
    by (subst k) simp
  ultimately show ?thesis by simp
qed

lemma NextWildcard_decreases:
  assumes nw: "NextWildcard k = (k', None)"
  shows "wildcard_measure k' < wildcard_measure k"
proof (cases "CHR ''/'' \<in> set k")
  case True
  with nw have k': "k' = strip_segment k" by (simp add: NextWildcard_def)
  have "count_list k' (CHR ''/'') < count_list k (CHR ''/'')"
    using True k' strip_segment_slashes by simp
  moreover have "count_list k' (CHR ''.'') \<le> count_list k (CHR ''.'')"
    using k' strip_segment_count by simp
  ultimately show ?thesis by (simp add: wildcard_measure_def)
next
  case False
  with nw have ne: "host_rest k \<noteq> []" and k': "k' = CHR ''*'' # host_rest k"
    by (auto simp: NextWildcard_def split: if_splits)
  from ne obtain r where r: "host_rest k = CHR ''.'' # r"
    using host_rest_starts_with_dot by blast
  have flag: "take 2 k' = ''*.''" using k' r by simp
  have sl: "count_list k' (CHR ''/'') \<le> count_list k (CHR ''/'')"
    using k' host_rest_count[of k "CHR ''/''"] by simp
  have dots: "count_list k' (CHR ''.'') = count_list (host_rest k) (CHR ''.'')"
    using k' by simp
  show ?thesis
  proof (cases "take 2 k = ''*.''")
    case True
    with host_rest_dots_after_star[OF True] sl dots flag show ?thesis
      by (simp add: wildcard_measure_def)
  next
    case False
    with host_rest_count[of k "CHR ''.''"] sl dots flag show ?thesis
      by (simp add: wildcard_measure_def)
  qed
qed

lemma NextWildcard_exhausted: "snd (NextWildcard k) = Some e \<Longrightarrow> fst (NextWildcard k) = k"
  by (simp add: NextWildcard_def split: if_splits)

termination Lookup_loop
proof (relation "measure (\<lambda>(t, uri, err, pool). if err = None then Suc (wildcard_measure uri) else 0)")
  show "wf (measure (\<lambda>(t :: Trie, uri, err :: uri_error option, pool :: Pool option).
              if err = None then Suc (wildcard_measure uri) else 0))"
    by simp
next
  fix t :: Trie and uri :: Uri and err :: "uri_error option" and pool :: "Pool option"
  assume a: "pool = None \<and> err = None"
  show "((t, fst (NextWildcard uri), snd (NextWildcard uri), MatchUri t (fst (NextWildcard uri))),
         (t, uri, err, pool))
        \<in> measure (\<lambda>(t, uri, err, pool). if err = None then Suc (wildcard_measure uri) else 0)"
  proof (cases "snd (NextWildcard uri)")
    case None
    then have "NextWildcard uri = (fst (NextWildcard uri), None)" by (simp add: prod_eq_iff)
    then have "wildcard_measure (fst (NextWildcard uri)) < wildcard_measure uri"
      by (rule NextWildcard_decreases)
    with a None show ?thesis by simp
  next
    case (Some e)
    with a show ?thesis by simp
  qed
qed

termination Lookup_spec
proof (relation "measure (\<lambda>(t, key). wildcard_measure key)")
  show "wf (measure (\<lambda>(t :: Trie, key). wildcard_measure key))" by simp
next
  fix t :: Trie and key :: Uri
  assume "snd (NextWildcard key) = None"
  then have "NextWildcard key = (fst (NextWildcard key), None)" by (simp add: prod_eq_iff)
  then have "wildcard_measure (fst (NextWildcard key)) < wildcard_measure key"
    by (rule NextWildcard_decreases)
  then show "((t, fst (NextWildcard key)), (t, key)) \<in> measure (\<lambda>(t, key). wildcard_measure key)"
    by simp
qed

declare Lookup_loop.simps [simp del]
declare Lookup_spec.simps [simp del]

subsection \<open>Register and the time of the last update\<close>

text \<open>
  Claim C10. Every call of \<^verbatim>\<open>Register\<close> sets \<^verbatim>\<open>timeOfLastUpdate\<close> to the clock reading \<open>t\<close>
  taken at entry, whatever the registry, the URI and the endpoint are, and so whatever
  \<^verbatim>\<open>Pool.Put\<close> returns: \<^verbatim>\<open>TimeOfLastUpdate\<close> gives \<open>t\<close> after the call.
\<close>

theorem Register_sets_timeOfLastUpdate:
  "TimeOfLastUpdate (Register t tput r uri endpoint) = t"
  by (simp add: TimeOfLastUpdate_def Register_def Let_def)

subsection \<open>The order of lookup\<close>

lemma Lookup_loop_is_spec:
  "Lookup_loop t key None (MatchUri t key) = Lookup_spec t key"
proof (induction t key rule: Lookup_spec.induct)
  case (1 t key)
  show ?case
  proof (cases "MatchUri t key")
    case (Some p)
    then show ?thesis by (simp add: Lookup_loop.simps[of t key] Lookup_spec.simps[of t key])
  next
    case None
    show ?thesis
    proof (cases "snd (NextWildcard key)")
      case nw: None
      have "Lookup_loop t key None (MatchUri t key)
            = Lookup_loop t (fst (NextWildcard key)) None (MatchUri t (fst (NextWildcard key)))"
        using None nw by (simp add: Lookup_loop.simps[of t key])
      also have "\<dots> = Lookup_spec t (fst (NextWildcard key))"
        using "1.IH"[OF None nw] .
      also have "\<dots> = Lookup_spec t key"
        using None nw by (simp add: Lookup_spec.simps[of t key])
      finally show ?thesis .
    next
      case (Some e)
      then have same: "fst (NextWildcard key) = key" by (rule NextWildcard_exhausted)
      have "Lookup_loop t key None (MatchUri t key)
            = Lookup_loop t key (Some e) (MatchUri t key)"
        using None Some same by (simp add: Lookup_loop.simps[of t key None])
      also have "\<dots> = None"
        using None by (simp add: Lookup_loop.simps[of t key "Some e"])
      also have "\<dots> = Lookup_spec t key"
        using None Some by (cases e) (simp add: Lookup_spec.simps[of t key])
      finally show ?thesis .
    qed
  qed
qed

text \<open>
  Claim C4. The pool that \<^verbatim>\<open>Lookup\<close> returns for a URI is the one the lookup order of the
  specification gives for its route key: the pool of the exact key if \<^verbatim>\<open>MatchUri\<close> finds
  one, otherwise the first pool found along the successive \<^verbatim>\<open>NextWildcard\<close> keys, and none
  when \<^verbatim>\<open>NextWildcard\<close> signals \<^verbatim>\<open>NoFallback\<close> before a match. The loop of \<^verbatim>\<open>Lookup\<close>
  terminates for every key.
\<close>

theorem Lookup_order:
  "fst (Lookup started endLookup r uri) = Lookup_spec (byURI r) (RouteKey uri)"
  by (simp add: Lookup_def Let_def Lookup_loop_is_spec)

subsection \<open>Finding pools in the trie\<close>

lemma find_parts_removable: "removable c \<Longrightarrow> find_parts ks c = None"
  by (cases ks) (simp_all add: removable_def)

lemma find_parts_insert:
  "find_parts ks' (insert_parts ks p t) = (if ks' = ks then Some p else find_parts ks' t)"
proof (induction ks arbitrary: ks' t)
  case Nil
  then show ?case by (cases ks') simp_all
next
  case (Cons s ss)
  show ?case
  proof (cases ks')
    case Nil
    then show ?thesis by simp
  next
    case (Cons s' ss')
    show ?thesis
    proof (cases "s' = s")
      case True
      show ?thesis
      proof (cases "fmlookup (ChildNodes t) s")
        case None
        then show ?thesis
          using Cons True Cons.IH[of ss' NewTrie]
          by (cases ss') (simp_all add: NewTrie_def)
      next
        case (Some c)
        then show ?thesis using Cons True Cons.IH[of ss' c] by simp
      qed
    next
      case False
      then show ?thesis using Cons by simp
    qed
  qed
qed

lemma find_parts_delete:
  "find_parts ks' (delete_parts ks t) = (if ks' = ks then None else find_parts ks' t)"
proof (induction ks arbitrary: ks' t)
  case Nil
  then show ?case by (cases ks') simp_all
next
  case (Cons s ss)
  show ?case
  proof (cases "fmlookup (ChildNodes t) s")
    case None
    then show ?thesis by (cases ks') auto
  next
    case (Some c)
    show ?thesis
    proof (cases ks')
      case Nil
      then show ?thesis using Some by simp
    next
      case (Cons s' ss')
      show ?thesis
      proof (cases "s' = s")
        case False
        then show ?thesis using Some Cons by simp
      next
        case True
        have ih: "find_parts ss' (delete_parts ss c) = (if ss' = ss then None else find_parts ss' c)"
          by (rule Cons.IH)
        show ?thesis
        proof (cases "removable (delete_parts ss c)")
          case r: True
          then have "find_parts ss' (delete_parts ss c) = None" by (rule find_parts_removable)
          with ih have "ss' \<noteq> ss \<Longrightarrow> find_parts ss' c = None" by simp
          then show ?thesis using Some Cons True r by auto
        next
          case r: False
          then show ?thesis using Some Cons True ih by simp
        qed
      qed
    qed
  qed
qed

lemma fmlookup_snip_children:
  "fmlookup (snip_children cs) s =
     (case fmlookup cs s of None \<Rightarrow> None | Some c \<Rightarrow> if removable c then None else Some c)"
  by (simp add: snip_children_def split: option.splits)

lemma find_parts_prune:
  "find_parts ks (prune_nodes inclusive thr t clock path)
     = Option.bind (find_parts ks t) (prune_pool inclusive thr (clock (path @ ks)))"
proof (induction ks arbitrary: t path)
  case Nil
  then show ?case by (cases t) (simp split: option.splits)
next
  case (Cons s ss)
  obtain p cs where t: "t = Trie p cs" by (cases t)
  show ?case
  proof (cases "fmlookup cs s")
    case None
    then show ?thesis using t by (simp add: fmlookup_snip_children)
  next
    case (Some c)
    have ih: "find_parts ss (prune_nodes inclusive thr c clock (path @ [s]))
        = Option.bind (find_parts ss c) (prune_pool inclusive thr (clock ((path @ [s]) @ ss)))"
      by (rule Cons.IH)
    show ?thesis
    proof (cases "removable (prune_nodes inclusive thr c clock (path @ [s]))")
      case True
      then have "find_parts ss (prune_nodes inclusive thr c clock (path @ [s])) = None"
        by (rule find_parts_removable)
      with ih True Some t show ?thesis by (simp add: fmlookup_snip_children)
    next
      case False
      with ih Some t show ?thesis by (simp add: fmlookup_snip_children)
    qed
  qed
qed


lemma insert_parts_same:
  "find_parts ks t = Some p \<Longrightarrow> insert_parts ks p t = t"
proof (induction ks arbitrary: t)
  case Nil
  then show ?case by (cases t) simp
next
  case (Cons s ss)
  obtain q cs where t: "t = Trie q cs" by (cases t)
  from Cons.prems t obtain c where c: "fmlookup cs s = Some c" and f: "find_parts ss c = Some p"
    by (auto split: option.splits)
  have "insert_parts ss p c = c" using f by (rule Cons.IH)
  moreover have "fmupd s c cs = cs" using c by (intro fmap_ext) auto
  ultimately show ?case using t c by simp
qed

lemma parts_nonempty: "parts xs \<noteq> []"
  by (induction xs) auto

lemma parts_inj: "parts xs = parts ys \<Longrightarrow> xs = ys"
proof (induction xs arbitrary: ys)
  case Nil
  then show ?case
    using parts_nonempty by (cases ys) (auto split: if_splits dest: sym)
next
  case (Cons x xs)
  show ?case
  proof (cases ys)
    case Nil
    with Cons.prems show ?thesis
      using parts_nonempty by (auto split: if_splits)
  next
    case (Cons y ys')
    have ne: "parts xs \<noteq> []" "parts ys' \<noteq> []" by (rule parts_nonempty)+
    then have hx: "parts xs = hd (parts xs) # tl (parts xs)"
      and hy: "parts ys' = hd (parts ys') # tl (parts ys')" by simp_all
    show ?thesis
    proof (cases "x = CHR ''/''")
      case True
      with Cons.prems Cons have "y = CHR ''/''" "parts xs = parts ys'"
        by (auto split: if_splits)
      with True Cons Cons.IH show ?thesis by simp
    next
      case False
      with Cons.prems Cons have y: "y = x" and "hd (parts xs) = hd (parts ys')"
        "tl (parts xs) = tl (parts ys')"
        by (auto split: if_splits)
      with hx hy have "parts xs = parts ys'" by metis
      with y Cons Cons.IH show ?thesis by simp
    qed
  qed
qed

subsection \<open>The prune tick\<close>




lemma RouteKey_foo: "RouteKey ''foo.com'' = ''foo.com''"
  by (simp add: RouteKey_def ToLower_def lower_char_def path_of_def Let_def)

lemma ex_registry_eval:
  "byURI ex_registry
     = Trie None (fmupd ''foo.com''
         (Trie (Some \<lparr>contextPath = ''/'', retryAfterFailure = 2,
                       endpoints = [ex_endpoint], nextIdx = 0\<rparr>) fmempty) fmempty)"
  "pruningStatus ex_registry = CONNECTED"
  "dropletStaleThreshold ex_registry = 10"
  by (simp_all add: ex_registry_def Register_def NewRouteRegistry_def RouteKey_foo Find_def
      Insert_def NewTrie_def NewPool_def Put_def parseContextPath_def go_div_def Let_def
      ex_endpoint_def)









subsection \<open>Pools in the trie are not empty\<close>

lemma find_parts_NewTrie: "find_parts ks NewTrie = None"
  by (rule find_parts_removable) (simp add: removable_def NewTrie_def)

lemma put_list_nonempty: "fst (put_list now e xs) \<noteq> []"
  by (induction xs) auto

lemma byURI_Lookup: "byURI (snd (Lookup started endLookup r uri)) = byURI r"
  by (simp add: Lookup_def Let_def)

lemma byURI_LookupWithInstance:
  "byURI (snd (LookupWithInstance started endLookup tput r uri appID appIndex)) = byURI r"
  by (simp add: LookupWithInstance_def Let_def byURI_Lookup split: option.splits)

lemma pools_nonempty_Register: 
  assumes "pools_nonempty (byURI r)"
  shows "pools_nonempty (byURI (Register t tput r uri e))"
  using assms
  by (auto simp: pools_nonempty_def Register_def Let_def Insert_def find_parts_insert Put_def
      put_list_nonempty split: if_splits)

lemma pools_nonempty_Unregister:
  assumes "pools_nonempty (byURI r)"
  shows "pools_nonempty (byURI (Unregister r uri e))"
proof (cases "Find (byURI r) (RouteKey uri)")
  case None
  with assms show ?thesis by (simp add: Unregister_def Let_def)
next
  case (Some pool)
  with assms show ?thesis
    by (auto simp: pools_nonempty_def Unregister_def Let_def Insert_def Delete_def
        find_parts_insert find_parts_delete IsEmpty_def split: if_splits)
qed

lemma pools_nonempty_prune:
  assumes "pools_nonempty (byURI r)"
  shows "pools_nonempty (byURI (pruneStaleDroplets inclusive tfresh clock suspended r))"
proof (cases suspended)
  case True
  with assms show ?thesis by (simp add: pruneStaleDroplets_def)
next
  case False
  have "pools_nonempty (prune_nodes i th t c path)" for i th t c path
    by (auto simp: pools_nonempty_def find_parts_prune prune_pool_def IsEmpty_def Let_def
        split: Option.bind_splits if_splits)
  with False show ?thesis by (simp add: pruneStaleDroplets_def Let_def)
qed

lemma reachable_pools_nonempty: "reachable r \<Longrightarrow> pools_nonempty (byURI r)"
proof (induction rule: reachable.induct)
  case (new interval threshold guid)
  show ?case by (simp add: pools_nonempty_def NewRouteRegistry_def find_parts_NewTrie)
next
  case (register r t tput uri endpoint)
  then show ?case by (simp add: pools_nonempty_Register)
next
  case (unregister r uri endpoint)
  then show ?case by (simp add: pools_nonempty_Unregister)
next
  case (lookup r started endLookup uri)
  then show ?case by (simp add: byURI_Lookup)
next
  case (lookup_with_instance r started endLookup tput uri appID appIndex)
  then show ?case by (simp add: byURI_LookupWithInstance)
next
  case (prune r inclusive tfresh clock suspended)
  then show ?case by (simp add: pools_nonempty_prune)
qed

lemma filter_none_same: "\<not> list_ex P xs \<Longrightarrow> filter (\<lambda>x. \<not> P x) xs = xs"
  by (induction xs) auto

lemma RouteKey_bar: "RouteKey ''bar.com'' = ''bar.com''"
  by (simp add: RouteKey_def ToLower_def lower_char_def path_of_def Let_def)

subsection \<open>Unregister\<close>

text \<open>
  Claim C9. In every registry that the operations produce, a call of \<^verbatim>\<open>Unregister\<close> makes
  exactly one call to the reporter, \<^verbatim>\<open>CaptureUnregistryMessage\<close> with the endpoint given,
  after the calls made before, and leaves \<^verbatim>\<open>timeOfLastUpdate\<close> as it was; when the route
  key of the URI is not in the trie, or its pool has no endpoint with the address of the
  endpoint given, the trie with all its pools is unchanged.
\<close>

theorem Unregister_reports:
  assumes "reachable r"
  shows "reporter (Unregister r uri endpoint) = reporter r @ [CaptureUnregistryMessage endpoint]
    \<and> timeOfLastUpdate (Unregister r uri endpoint) = timeOfLastUpdate r
    \<and> ((case Find (byURI r) (RouteKey uri) of
           None \<Rightarrow> True
         | Some pool \<Rightarrow> \<not> list_ex (\<lambda>x. same_addr x endpoint) (endpoints pool))
        \<longrightarrow> byURI (Unregister r uri endpoint) = byURI r)"
proof (intro conjI impI)
  show "reporter (Unregister r uri endpoint) = reporter r @ [CaptureUnregistryMessage endpoint]"
    by (simp add: Unregister_def Let_def split: option.splits)
  show "timeOfLastUpdate (Unregister r uri endpoint) = timeOfLastUpdate r"
    by (simp add: Unregister_def Let_def split: option.splits)
next
  assume a: "case Find (byURI r) (RouteKey uri) of
           None \<Rightarrow> True
         | Some pool \<Rightarrow> \<not> list_ex (\<lambda>x. same_addr x endpoint) (endpoints pool)"
  show "byURI (Unregister r uri endpoint) = byURI r"
  proof (cases "Find (byURI r) (RouteKey uri)")
    case None
    then show ?thesis by (simp add: Unregister_def Let_def)
  next
    case (Some pool)
    with a have absent: "\<not> list_ex (\<lambda>x. same_addr x endpoint) (endpoints pool)" by simp
    then have same: "fst (Remove pool endpoint) = pool"
      by (simp add: Remove_def filter_none_same)
    from assms have "pools_nonempty (byURI r)" by (rule reachable_pools_nonempty)
    with Some have ne: "\<not> IsEmpty pool"
      by (auto simp: pools_nonempty_def Find_def IsEmpty_def)
    have "Insert (byURI r) (RouteKey uri) pool = byURI r"
      using Some by (simp add: Insert_def Find_def insert_parts_same)
    with Some same ne show ?thesis by (simp add: Unregister_def Let_def)
  qed
qed

theorem Unregister_reports_witness:
  "reachable ex_registry
   \<and> reporter (Unregister ex_registry ''bar.com'' ex_endpoint)
       = reporter ex_registry @ [CaptureUnregistryMessage ex_endpoint]
   \<and> timeOfLastUpdate (Unregister ex_registry ''bar.com'' ex_endpoint) = 0
   \<and> byURI (Unregister ex_registry ''bar.com'' ex_endpoint) = byURI ex_registry
   \<and> reporter (Unregister ex_registry ''foo.com'' ex_endpoint2)
       = reporter ex_registry @ [CaptureUnregistryMessage ex_endpoint2]
   \<and> byURI (Unregister ex_registry ''foo.com'' ex_endpoint2) = byURI ex_registry"
proof -
  have r: "reachable ex_registry"
    unfolding ex_registry_def by (rule reachable.register) (rule reachable.new)
  have f: "Find (byURI ex_registry) (RouteKey ''bar.com'') = None"
    by (simp add: ex_registry_eval(1) RouteKey_bar Find_def)
  have g: "Find (byURI ex_registry) (RouteKey ''foo.com'')
             = Some \<lparr>contextPath = ''/'', retryAfterFailure = 2,
                     endpoints = [ex_endpoint], nextIdx = 0\<rparr>"
    by (simp add: ex_registry_eval(1) RouteKey_foo Find_def)
  have n: "\<not> same_addr ex_endpoint ex_endpoint2"
    by (simp add: same_addr_def ex_endpoint2_def ex_endpoint_def)
  have t: "timeOfLastUpdate ex_registry = 0"
    by (simp add: ex_registry_def Register_def Let_def)
  from r f t Unregister_reports[OF r, of "''bar.com''" ex_endpoint]
  have 1: "reporter (Unregister ex_registry ''bar.com'' ex_endpoint)
       = reporter ex_registry @ [CaptureUnregistryMessage ex_endpoint]
   \<and> timeOfLastUpdate (Unregister ex_registry ''bar.com'' ex_endpoint) = 0
   \<and> byURI (Unregister ex_registry ''bar.com'' ex_endpoint) = byURI ex_registry"
    by simp
  from g n Unregister_reports[OF r, of "''foo.com''" ex_endpoint2]
  have 2: "reporter (Unregister ex_registry ''foo.com'' ex_endpoint2)
       = reporter ex_registry @ [CaptureUnregistryMessage ex_endpoint2]
   \<and> byURI (Unregister ex_registry ''foo.com'' ex_endpoint2) = byURI ex_registry"
    by simp
  from r 1 2 show ?thesis by simp
qed

subsection \<open>Register, then Lookup\<close>

lemma put_list_has: "list_ex (\<lambda>x. same_addr x e) (fst (put_list now e xs))"
  by (induction xs) (auto simp: same_addr_def)

lemma put_list_keeps:
  "list_ex (\<lambda>x. same_addr x e) xs \<Longrightarrow> list_ex (\<lambda>x. same_addr x e) (fst (put_list now e2 xs))"
  by (induction xs) (auto simp: same_addr_def)

lemma has_endpoint_Register_same: "has_endpoint (byURI (Register t tput r u e)) u e"
  by (simp add: has_endpoint_def Register_def Let_def Find_def Insert_def find_parts_insert
      Put_def put_list_has)

lemma has_endpoint_Register:
  assumes "has_endpoint (byURI r) u e"
  shows "has_endpoint (byURI (Register t tput r u2 e2)) u e"
proof (cases "parts (RouteKey u2) = parts (RouteKey u)")
  case True
  then have k: "RouteKey u2 = RouteKey u" by (rule parts_inj)
  from assms obtain p where p: "Find (byURI r) (RouteKey u) = Some p"
    and h: "list_ex (\<lambda>x. same_addr x e) (endpoints p)"
    by (auto simp: has_endpoint_def split: option.splits)
  from h have "list_ex (\<lambda>x. same_addr x e) (fst (put_list tput e2 (endpoints p)))"
    by (rule put_list_keeps)
  with p k show ?thesis
    by (simp add: has_endpoint_def Register_def Let_def Find_def Insert_def find_parts_insert
        Put_def)
next
  case False
  with assms show ?thesis
    by (simp add: has_endpoint_def Register_def Let_def Find_def Insert_def find_parts_insert)
qed

lemma has_endpoint_Unregister:
  assumes h: "has_endpoint (byURI r) u e"
    and ni: "\<not> (RouteKey u2 = RouteKey u \<and> same_addr e2 e)"
  shows "has_endpoint (byURI (Unregister r u2 e2)) u e"
proof (cases "Find (byURI r) (RouteKey u2)")
  case None
  with h show ?thesis by (simp add: Unregister_def Let_def has_endpoint_def)
next
  case (Some pool)
  show ?thesis
  proof (cases "parts (RouteKey u2) = parts (RouteKey u)")
    case True
    then have k: "RouteKey u2 = RouteKey u" by (rule parts_inj)
    with ni have ne: "\<not> same_addr e2 e" by simp
    from h Some k have hp: "list_ex (\<lambda>x. same_addr x e) (endpoints pool)"
      by (simp add: has_endpoint_def)
    have keep: "list_ex (\<lambda>x. same_addr x e) (filter (\<lambda>x. \<not> same_addr x e2) (endpoints pool))"
      using hp ne by (induction "endpoints pool") (auto simp: same_addr_def list_ex_iff)
    then have "filter (\<lambda>x. \<not> same_addr x e2) (endpoints pool) \<noteq> []"
      by (cases "filter (\<lambda>x. \<not> same_addr x e2) (endpoints pool)") simp_all
    with keep Some k show ?thesis
      by (simp add: has_endpoint_def Unregister_def Let_def Find_def Insert_def Remove_def
          IsEmpty_def find_parts_insert)
  next
    case False
    with h Some show ?thesis
      by (simp add: has_endpoint_def Unregister_def Let_def Find_def Insert_def Delete_def
          find_parts_insert find_parts_delete)
  qed
qed

lemma has_endpoint_apply_op:
  assumes "has_endpoint (byURI r) u e" and "\<not> interferes u e x"
  shows "has_endpoint (byURI (apply_op x r)) u e"
  using assms
  by (cases x)
     (simp_all add: has_endpoint_Register has_endpoint_Unregister byURI_Lookup
        byURI_LookupWithInstance)

lemma has_endpoint_run:
  assumes "has_endpoint (byURI r) u e" and "\<not> list_ex (interferes u e) ops"
  shows "has_endpoint (byURI (run ops r)) u e"
  using assms unfolding run_def
  by (induction ops arbitrary: r) (simp_all add: has_endpoint_apply_op)

lemma Lookup_exact:
  assumes "Find (byURI r) (RouteKey u) = Some p"
  shows "fst (Lookup started endLookup r u) = Some p"
  using assms
  by (simp add: Lookup_def Let_def MatchUri_def Find_def Lookup_loop.simps[of _ "RouteKey u"])

lemma same_endpoint_sym: "same_endpoint a b \<Longrightarrow> same_endpoint b a"
  by (simp add: same_endpoint_def)

lemma same_endpoint_trans: "same_endpoint a b \<Longrightarrow> same_endpoint b c \<Longrightarrow> same_endpoint a c"
  by (simp add: same_endpoint_def)

lemma same_endpoint_stamp: "same_endpoint (e\<lparr>updated_at := t\<rparr>) e"
  by (simp add: same_endpoint_def)

lemma same_endpoint_addr:
  assumes "same_endpoint a b"
  shows "same_addr a b"
proof -
  from assms have "CanonicalAddr (a\<lparr>updated_at := 0\<rparr>) = CanonicalAddr (b\<lparr>updated_at := 0\<rparr>)"
    by (simp add: same_endpoint_def)
  then show ?thesis by (simp add: same_addr_def)
qed

lemma same_endpoint_tag:
  assumes "same_endpoint a b"
  shows "modificationTag a = modificationTag b"
proof -
  from assms have "modificationTag (a\<lparr>updated_at := 0\<rparr>) = modificationTag (b\<lparr>updated_at := 0\<rparr>)"
    by (simp add: same_endpoint_def)
  then show ?thesis by simp
qed

lemma put_list_stores:
  "put_accepts e xs \<Longrightarrow> list_ex (\<lambda>x. same_endpoint x e) (fst (put_list now e xs))"
proof (induction xs)
  case Nil
  show ?case by (simp add: same_endpoint_stamp)
next
  case (Cons x xs)
  show ?case
  proof (cases "same_addr x e")
    case True
    with Cons.prems show ?thesis by (auto simp: put_accepts_def same_endpoint_stamp)
  next
    case False
    with Cons.prems have "put_accepts e xs" by (simp add: put_accepts_def)
    then have "list_ex (\<lambda>x. same_endpoint x e) (fst (put_list now e xs))" by (rule Cons.IH)
    with False show ?thesis by simp
  qed
qed

lemma put_list_keeps_exact:
  assumes "list_ex (\<lambda>x. same_endpoint x e) xs"
    and "\<not> (same_addr e2 e \<and> \<not> same_endpoint e2 e
            \<and> newer_tag (modificationTag e2) (modificationTag e))"
  shows "list_ex (\<lambda>x. same_endpoint x e) (fst (put_list now e2 xs))"
  using assms(1)
proof (induction xs)
  case Nil
  then show ?case by simp
next
  case (Cons x xs)
  show ?case
  proof (cases "same_addr x e2")
    case False
    with Cons show ?thesis by auto
  next
    case addr: True
    show ?thesis
    proof (cases "list_ex (\<lambda>x. same_endpoint x e) xs")
      case True
      with addr show ?thesis by simp
    next
      case False
      with Cons.prems have xe: "same_endpoint x e" by simp
      then have "same_addr x e" by (rule same_endpoint_addr)
      with addr have a2: "same_addr e2 e" by (simp add: same_addr_def)
      show ?thesis
      proof (cases "same_endpoint x e2")
        case True
        then have "same_endpoint e2 e"
          using xe same_endpoint_sym same_endpoint_trans by blast
        then have "same_endpoint (e2\<lparr>updated_at := now\<rparr>) e"
          using same_endpoint_stamp same_endpoint_trans by blast
        with addr True show ?thesis by simp
      next
        case ne: False
        have "\<not> same_endpoint e2 e"
        proof
          assume "same_endpoint e2 e"
          then have "same_endpoint x e2"
            using xe same_endpoint_sym same_endpoint_trans by blast
          with ne show False by simp
        qed
        with assms(2) a2 have "\<not> newer_tag (modificationTag e2) (modificationTag e)" by simp
        then have "\<not> newer_tag (modificationTag e2) (modificationTag x)"
          using same_endpoint_tag[OF xe] by simp
        with addr ne xe show ?thesis by simp
      qed
    qed
  qed
qed

lemma holds_endpoint_Register_same:
  assumes "register_accepts r u e"
  shows "holds_endpoint (byURI (Register t tput r u e)) u e"
proof (cases "Find (byURI r) (RouteKey u)")
  case None
  then show ?thesis
    by (simp add: holds_endpoint_def Register_def Let_def Find_def Insert_def find_parts_insert
        Put_def NewPool_def same_endpoint_stamp)
next
  case (Some p)
  with assms have "put_accepts e (endpoints p)" by (simp add: register_accepts_def)
  then have "list_ex (\<lambda>x. same_endpoint x e) (fst (put_list tput e (endpoints p)))"
    by (rule put_list_stores)
  with Some show ?thesis
    by (simp add: holds_endpoint_def Register_def Let_def Find_def Insert_def find_parts_insert
        Put_def)
qed

lemma holds_endpoint_Register:
  assumes "holds_endpoint (byURI r) u e"
    and "\<not> (RouteKey u2 = RouteKey u \<and> same_addr e2 e \<and> \<not> same_endpoint e2 e
            \<and> newer_tag (modificationTag e2) (modificationTag e))"
  shows "holds_endpoint (byURI (Register t tput r u2 e2)) u e"
proof (cases "parts (RouteKey u2) = parts (RouteKey u)")
  case True
  then have k: "RouteKey u2 = RouteKey u" by (rule parts_inj)
  from assms(1) obtain p where p: "Find (byURI r) (RouteKey u) = Some p"
    and h: "list_ex (\<lambda>x. same_endpoint x e) (endpoints p)"
    by (auto simp: holds_endpoint_def split: option.splits)
  from assms(2) k have "\<not> (same_addr e2 e \<and> \<not> same_endpoint e2 e
            \<and> newer_tag (modificationTag e2) (modificationTag e))" by simp
  with h have "list_ex (\<lambda>x. same_endpoint x e) (fst (put_list tput e2 (endpoints p)))"
    by (rule put_list_keeps_exact)
  with p k show ?thesis
    by (simp add: holds_endpoint_def Register_def Let_def Find_def Insert_def find_parts_insert
        Put_def)
next
  case False
  with assms(1) show ?thesis
    by (simp add: holds_endpoint_def Register_def Let_def Find_def Insert_def find_parts_insert)
qed

lemma holds_endpoint_Unregister:
  assumes h: "holds_endpoint (byURI r) u e"
    and ni: "\<not> (RouteKey u2 = RouteKey u \<and> same_addr e2 e)"
  shows "holds_endpoint (byURI (Unregister r u2 e2)) u e"
proof (cases "Find (byURI r) (RouteKey u2)")
  case None
  with h show ?thesis by (simp add: Unregister_def Let_def holds_endpoint_def)
next
  case (Some pool)
  show ?thesis
  proof (cases "parts (RouteKey u2) = parts (RouteKey u)")
    case True
    then have k: "RouteKey u2 = RouteKey u" by (rule parts_inj)
    with ni have ne: "\<not> same_addr e2 e" by simp
    from h Some k have "list_ex (\<lambda>x. same_endpoint x e) (endpoints pool)"
      by (simp add: holds_endpoint_def)
    then obtain x where x: "x \<in> set (endpoints pool)" "same_endpoint x e"
      by (auto simp: list_ex_iff)
    from x(2) have "same_addr x e" by (rule same_endpoint_addr)
    with ne have "\<not> same_addr x e2" by (auto simp: same_addr_def)
    with x have keep: "list_ex (\<lambda>x. same_endpoint x e)
                         (filter (\<lambda>x. \<not> same_addr x e2) (endpoints pool))"
      by (auto simp: list_ex_iff)
    then have "filter (\<lambda>x. \<not> same_addr x e2) (endpoints pool) \<noteq> []"
      by (cases "filter (\<lambda>x. \<not> same_addr x e2) (endpoints pool)") simp_all
    with keep Some k show ?thesis
      by (simp add: holds_endpoint_def Unregister_def Let_def Find_def Insert_def Remove_def
          IsEmpty_def find_parts_insert)
  next
    case False
    with h Some show ?thesis
      by (simp add: holds_endpoint_def Unregister_def Let_def Find_def Insert_def Delete_def
          find_parts_insert find_parts_delete)
  qed
qed

lemma holds_endpoint_apply_op:
  assumes "holds_endpoint (byURI r) u e" and "\<not> interferes u e x" and "\<not> replaces u e x"
  shows "holds_endpoint (byURI (apply_op x r)) u e"
  using assms
  by (cases x)
     (simp_all add: holds_endpoint_Register holds_endpoint_Unregister byURI_Lookup
        byURI_LookupWithInstance)

lemma holds_endpoint_run:
  assumes "holds_endpoint (byURI r) u e" and "\<not> list_ex (interferes u e) ops"
    and "\<not> list_ex (replaces u e) ops"
  shows "holds_endpoint (byURI (run ops r)) u e"
  using assms unfolding run_def
  by (induction ops arbitrary: r) (simp_all add: holds_endpoint_apply_op)

text \<open>
  Claim C5, as the code has it. After \<^verbatim>\<open>Register(u, e)\<close> on any registry, and after any
  further operations among which there is no prune tick and no \<^verbatim>\<open>Unregister\<close> of the route
  key of \<open>u\<close> with the canonical address of \<open>e\<close>, \<^verbatim>\<open>Lookup(u)\<close> returns a pool, and that pool
  has an endpoint with the canonical address of \<open>e\<close>. It is \<open>e\<close> itself, all its fields but
  the time stamp that \<^verbatim>\<open>Put\<close> sets, when \<^verbatim>\<open>Put\<close> took \<open>e\<close> (the pool held no endpoint with
  that address, or held \<open>e\<close>, or one with a strictly older modification tag) and no later
  \<^verbatim>\<open>Register\<close> of the same route key brought another endpoint with that address and a
  strictly newer modification tag.
\<close>

theorem Register_then_Lookup:
  assumes "\<not> list_ex (interferes u e) ops"
  shows "\<exists>pool. fst (Lookup started endLookup (run ops (Register t tput r u e)) u) = Some pool
           \<and> list_ex (\<lambda>x. same_addr x e) (endpoints pool)
           \<and> (register_accepts r u e \<and> \<not> list_ex (replaces u e) ops
                \<longrightarrow> list_ex (\<lambda>x. same_endpoint x e) (endpoints pool))"
proof -
  let ?r = "run ops (Register t tput r u e)"
  have "has_endpoint (byURI (Register t tput r u e)) u e" by (rule has_endpoint_Register_same)
  then have "has_endpoint (byURI ?r) u e"
    using assms by (rule has_endpoint_run)
  then obtain p where p: "Find (byURI ?r) (RouteKey u) = Some p"
    and h: "list_ex (\<lambda>x. same_addr x e) (endpoints p)"
    by (auto simp: has_endpoint_def split: option.splits)
  from p have l: "fst (Lookup started endLookup ?r u) = Some p"
    by (rule Lookup_exact)
  have "list_ex (\<lambda>x. same_endpoint x e) (endpoints p)"
    if "register_accepts r u e \<and> \<not> list_ex (replaces u e) ops"
  proof -
    from that have "holds_endpoint (byURI (Register t tput r u e)) u e"
      by (simp add: holds_endpoint_Register_same)
    then have "holds_endpoint (byURI ?r) u e"
      using assms that by (simp add: holds_endpoint_run)
    with p show ?thesis by (simp add: holds_endpoint_def)
  qed
  with l h show ?thesis by blast
qed

theorem Register_then_Lookup_witness:
  "\<not> list_ex (interferes ''foo.com'' ex_endpoint)
       [OpRegister 1 1 ''bar.com'' ex_endpoint2, OpUnregister ''foo.com'' ex_endpoint2,
        OpLookup 2 3 ''bar.com'']
   \<and> (\<exists>pool. fst (Lookup 5 6
                 (run [OpRegister 1 1 ''bar.com'' ex_endpoint2,
                       OpUnregister ''foo.com'' ex_endpoint2, OpLookup 2 3 ''bar.com'']
                    (Register 0 0 (NewRouteRegistry 30 10 []) ''foo.com'' ex_endpoint))
                 ''foo.com'') = Some pool
         \<and> list_ex (\<lambda>x. same_addr x ex_endpoint) (endpoints pool)
         \<and> list_ex (\<lambda>x. same_endpoint x ex_endpoint) (endpoints pool))"
proof -
  have n: "\<not> list_ex (interferes ''foo.com'' ex_endpoint)
       [OpRegister 1 1 ''bar.com'' ex_endpoint2, OpUnregister ''foo.com'' ex_endpoint2,
        OpLookup 2 3 ''bar.com'']"
    by (simp add: same_addr_def ex_endpoint2_def ex_endpoint_def)
  have m: "\<not> list_ex (replaces ''foo.com'' ex_endpoint)
       [OpRegister 1 1 ''bar.com'' ex_endpoint2, OpUnregister ''foo.com'' ex_endpoint2,
        OpLookup 2 3 ''bar.com'']"
    by (simp add: same_addr_def ex_endpoint2_def ex_endpoint_def)
  have a: "register_accepts (NewRouteRegistry 30 10 []) ''foo.com'' ex_endpoint"
    by (simp add: register_accepts_def NewRouteRegistry_def Find_def find_parts_NewTrie)
  from n m a Register_then_Lookup[OF n, of 5 6 0 0 "NewRouteRegistry 30 10 []"] show ?thesis
    by blast
qed

text \<open>
  The claim as the specification words it fails at two places. Over a stored endpoint of
  another application with the same address and a newer modification tag,
  \<^verbatim>\<open>Register(u, e)\<close> is ignored and the pool that \<^verbatim>\<open>Lookup(u)\<close> returns holds the other
  endpoint only. And after \<^verbatim>\<open>Register(u, e)\<close>, a \<^verbatim>\<open>Register\<close> of such an endpoint, which is
  neither an \<^verbatim>\<open>Unregister\<close> nor a prune tick, puts it in the place of \<open>e\<close>.
\<close>

theorem Register_then_Lookup_counterexample:
  "fst (Lookup 2 3
          (Register 1 1 (Register 0 0 (NewRouteRegistry 30 10 []) ''foo.com'' ex_endpoint_newer)
             ''foo.com'' ex_endpoint)
          ''foo.com'')
     = Some \<lparr>contextPath = ''/'', retryAfterFailure = 2,
             endpoints = [ex_endpoint_newer], nextIdx = 0\<rparr>
   \<and> \<not> same_endpoint ex_endpoint_newer ex_endpoint
   \<and> fst (Lookup 2 3
            (run [OpRegister 1 1 ''foo.com'' ex_endpoint_newer]
               (Register 0 0 (NewRouteRegistry 30 10 []) ''foo.com'' ex_endpoint))
            ''foo.com'')
       = Some \<lparr>contextPath = ''/'', retryAfterFailure = 2,
               endpoints = [ex_endpoint_newer\<lparr>updated_at := 1\<rparr>], nextIdx = 0\<rparr>
   \<and> \<not> same_endpoint (ex_endpoint_newer\<lparr>updated_at := 1\<rparr>) ex_endpoint"
proof -
  have f1: "Find (byURI (Register 1 1
                 (Register 0 0 (NewRouteRegistry 30 10 []) ''foo.com'' ex_endpoint_newer)
                 ''foo.com'' ex_endpoint)) (RouteKey ''foo.com'')
      = Some \<lparr>contextPath = ''/'', retryAfterFailure = 2,
             endpoints = [ex_endpoint_newer], nextIdx = 0\<rparr>"
    by (simp add: Register_def NewRouteRegistry_def RouteKey_foo Find_def
      Insert_def NewTrie_def NewPool_def Put_def parseContextPath_def go_div_def Let_def
      same_addr_def same_endpoint_def newer_tag_def ex_endpoint_newer_def ex_endpoint_def)
  have f2: "Find (byURI (run [OpRegister 1 1 ''foo.com'' ex_endpoint_newer]
               (Register 0 0 (NewRouteRegistry 30 10 []) ''foo.com'' ex_endpoint)))
             (RouteKey ''foo.com'')
      = Some \<lparr>contextPath = ''/'', retryAfterFailure = 2,
               endpoints = [ex_endpoint_newer\<lparr>updated_at := 1\<rparr>], nextIdx = 0\<rparr>"
    by (simp add: run_def Register_def NewRouteRegistry_def RouteKey_foo Find_def
      Insert_def NewTrie_def NewPool_def Put_def parseContextPath_def go_div_def Let_def
      same_addr_def same_endpoint_def newer_tag_def ex_endpoint_newer_def ex_endpoint_def)
  have n: "\<not> same_endpoint ex_endpoint_newer ex_endpoint"
    "\<not> same_endpoint (ex_endpoint_newer\<lparr>updated_at := 1\<rparr>) ex_endpoint"
    by (simp_all add: same_endpoint_def ex_endpoint_newer_def ex_endpoint_def)
  from Lookup_exact[OF f1, of 2 3] Lookup_exact[OF f2, of 2 3] n show ?thesis by simp
qed

subsection \<open>Lookups on the sample registry\<close>

text \<open>A wildcard host, a context path below a registered URI, and an unknown host.\<close>

lemma RouteKey_a_example: "RouteKey ''a.example.com'' = ''a.example.com''"
  by (simp add: RouteKey_def ToLower_def lower_char_def path_of_def Let_def)

lemma RouteKey_star_example: "RouteKey ''*.example.com'' = ''*.example.com''"
  by (simp add: RouteKey_def ToLower_def lower_char_def path_of_def Let_def)

lemma RouteKey_foo_app_x: "RouteKey ''foo.com/app/x'' = ''foo.com/app/x''"
  by (simp add: RouteKey_def ToLower_def lower_char_def path_of_def Let_def)

theorem Lookup_order_witness:
  "fst (Lookup 1 2 (Register 0 0 (NewRouteRegistry 30 10 []) ''*.example.com'' ex_endpoint)
          ''a.example.com'')
     = Some \<lparr>contextPath = ''/'', retryAfterFailure = 2, endpoints = [ex_endpoint], nextIdx = 0\<rparr>
   \<and> fst (Lookup 1 2 ex_registry ''foo.com/app/x'')
     = Some \<lparr>contextPath = ''/'', retryAfterFailure = 2, endpoints = [ex_endpoint], nextIdx = 0\<rparr>
   \<and> fst (Lookup 1 2 ex_registry ''bar.com'') = None"
proof -
  let ?r = "Register 0 0 (NewRouteRegistry 30 10 []) ''*.example.com'' ex_endpoint"
  have t: "byURI ?r = Trie None (fmupd ''*.example.com''
         (Trie (Some \<lparr>contextPath = ''/'', retryAfterFailure = 2,
                       endpoints = [ex_endpoint], nextIdx = 0\<rparr>) fmempty) fmempty)"
    by (simp add: Register_def NewRouteRegistry_def RouteKey_star_example Find_def
      Insert_def NewTrie_def NewPool_def Put_def parseContextPath_def go_div_def Let_def
      ex_endpoint_def)
  have a: "Lookup_spec (byURI ?r) ''a.example.com''
     = Some \<lparr>contextPath = ''/'', retryAfterFailure = 2, endpoints = [ex_endpoint], nextIdx = 0\<rparr>"
    by (simp add: t Lookup_spec.simps[of _ "''a.example.com''"]
        Lookup_spec.simps[of _ "''*.example.com''"] MatchUri_def NextWildcard_def host_rest_def)
  have b: "Lookup_spec (byURI ex_registry) ''foo.com/app/x''
     = Some \<lparr>contextPath = ''/'', retryAfterFailure = 2, endpoints = [ex_endpoint], nextIdx = 0\<rparr>"
    by (simp add: ex_registry_eval(1) Lookup_spec.simps[of _ "''foo.com/app/x''"]
        Lookup_spec.simps[of _ "''foo.com/app''"] Lookup_spec.simps[of _ "''foo.com''"]
        MatchUri_def NextWildcard_def strip_segment_def)
  have c: "Lookup_spec (byURI ex_registry) ''bar.com'' = None"
    by (simp add: ex_registry_eval(1) Lookup_spec.simps[of _ "''bar.com''"]
        Lookup_spec.simps[of _ "''*.com''"]
        MatchUri_def NextWildcard_def host_rest_def)
  show ?thesis
    using Lookup_order[of 1 2 ?r "''a.example.com''"]
      Lookup_order[of 1 2 ex_registry "''foo.com/app/x''"]
      Lookup_order[of 1 2 ex_registry "''bar.com''"]
    by (simp add: a b c RouteKey_a_example RouteKey_foo_app_x RouteKey_bar)
qed

subsection \<open>LookupWithInstance\<close>

lemma Put_NewPool:
  "fst (Put tput (NewPool 0 []) e) = (NewPool 0 [])\<lparr>endpoints := [e\<lparr>updated_at := tput\<rparr>]\<rparr>"
  by (simp add: Put_def NewPool_def)

lemma fold_surgical:
  "fold (surgical tput appID appIndex) xs acc =
     (case filter (\<lambda>e. ApplicationId e = appID \<and> PrivateInstanceIndex e = appIndex) xs of
        [] \<Rightarrow> acc
      | m # ms \<Rightarrow> Some ((NewPool 0 [])\<lparr>endpoints := [(last (m # ms))\<lparr>updated_at := tput\<rparr>]\<rparr>))"
proof (induction xs arbitrary: acc)
  case Nil
  then show ?case by simp
next
  case (Cons x xs)
  have "fold (surgical tput appID appIndex) (x # xs) acc
          = fold (surgical tput appID appIndex) xs (surgical tput appID appIndex x acc)"
    by simp
  also have "\<dots> =
     (case filter (\<lambda>e. ApplicationId e = appID \<and> PrivateInstanceIndex e = appIndex) xs of
        [] \<Rightarrow> surgical tput appID appIndex x acc
      | m # ms \<Rightarrow> Some ((NewPool 0 [])\<lparr>endpoints := [(last (m # ms))\<lparr>updated_at := tput\<rparr>]\<rparr>))"
    by (rule Cons.IH)
  also have "\<dots> =
     (case filter (\<lambda>e. ApplicationId e = appID \<and> PrivateInstanceIndex e = appIndex) (x # xs) of
        [] \<Rightarrow> acc
      | m # ms \<Rightarrow> Some ((NewPool 0 [])\<lparr>endpoints := [(last (m # ms))\<lparr>updated_at := tput\<rparr>]\<rparr>))"
    by (simp add: surgical_def Put_NewPool split: list.splits)
  finally show ?case .
qed

lemma LookupWithInstance_last_match:
  "fst (LookupWithInstance started endLookup tput r uri appID appIndex) =
     (case fst (Lookup started endLookup r (RouteKey uri)) of
        None \<Rightarrow> None
      | Some p \<Rightarrow>
          (case filter (\<lambda>e. ApplicationId e = appID \<and> PrivateInstanceIndex e = appIndex)
                  (endpoints p) of
             [] \<Rightarrow> None
           | m # ms \<Rightarrow>
               Some ((NewPool 0 [])\<lparr>endpoints := [(last (m # ms))\<lparr>updated_at := tput\<rparr>]\<rparr>)))"
  by (simp add: LookupWithInstance_def Let_def Each_def fold_surgical split: option.splits)

lemma ex_registry2_Find:
  "Find (byURI ex_registry2) (RouteKey ''foo.com'')
     = Some \<lparr>contextPath = ''/'', retryAfterFailure = 2,
             endpoints = [ex_endpoint, ex_endpoint2], nextIdx = 0\<rparr>"
  by (simp add: ex_registry2_def Register_def Let_def ex_registry_eval(1) RouteKey_foo Find_def
      Insert_def Put_def same_addr_def ex_endpoint2_def ex_endpoint_def)

text \<open>
  Claim C1, as the code has it. \<^verbatim>\<open>LookupWithInstance\<close> looks up the route key of the URI.
  If \<^verbatim>\<open>Lookup\<close> finds no pool, or no endpoint of the pool found has the application id and
  the instance index asked for, it returns null. If at least one endpoint matches, it
  returns a fresh pool (threshold 0, empty context path) holding one endpoint: the last
  matching endpoint in the order of the pool, which is the matching endpoint when exactly
  one matches. The pool returned is not stored: the trie of the registry is as before.
\<close>

theorem LookupWithInstance_result:
  "fst (LookupWithInstance started endLookup tput r uri appID appIndex) =
     (case fst (Lookup started endLookup r (RouteKey uri)) of
        None \<Rightarrow> None
      | Some p \<Rightarrow>
          (case filter (\<lambda>e. ApplicationId e = appID \<and> PrivateInstanceIndex e = appIndex)
                  (endpoints p) of
             [] \<Rightarrow> None
           | m # ms \<Rightarrow>
               Some ((NewPool 0 [])\<lparr>endpoints := [(last (m # ms))\<lparr>updated_at := tput\<rparr>]\<rparr>)))
   \<and> byURI (snd (LookupWithInstance started endLookup tput r uri appID appIndex)) = byURI r"
  by (simp add: LookupWithInstance_last_match byURI_LookupWithInstance)

theorem LookupWithInstance_result_witness:
  "fst (LookupWithInstance 1 2 3 ex_registry ''foo.com'' ''app'' ''0'')
     = Some \<lparr>contextPath = [], retryAfterFailure = 0,
             endpoints = [ex_endpoint\<lparr>updated_at := 3\<rparr>], nextIdx = 0\<rparr>
   \<and> fst (LookupWithInstance 1 2 3 ex_registry ''foo.com'' ''app'' ''1'') = None"
proof -
  have f: "Find (byURI ex_registry) (RouteKey (RouteKey ''foo.com''))
             = Some \<lparr>contextPath = ''/'', retryAfterFailure = 2,
                     endpoints = [ex_endpoint], nextIdx = 0\<rparr>"
    by (simp add: ex_registry_eval(1) RouteKey_foo Find_def)
  have l: "fst (Lookup 1 2 ex_registry (RouteKey ''foo.com''))
     = Some \<lparr>contextPath = ''/'', retryAfterFailure = 2,
             endpoints = [ex_endpoint], nextIdx = 0\<rparr>"
    using f by (rule Lookup_exact)
  show ?thesis
    using LookupWithInstance_result[of 1 2 3 ex_registry "''foo.com''" "''app''" "''0''"]
      LookupWithInstance_result[of 1 2 3 ex_registry "''foo.com''" "''app''" "''1''"]
    by (simp add: l NewPool_def ex_endpoint_def)
qed

text \<open>
  The claim as the specification words it fails when more than one endpoint matches: with
  two endpoints of the application \<^verbatim>\<open>app\<close>, instance \<^verbatim>\<open>0\<close>, at different addresses under
  \<^verbatim>\<open>foo.com\<close>, the result is not null but a pool holding the second.
\<close>

theorem LookupWithInstance_counterexample:
  "fst (Lookup 1 2 ex_registry2 ''foo.com'')
     = Some \<lparr>contextPath = ''/'', retryAfterFailure = 2,
             endpoints = [ex_endpoint, ex_endpoint2], nextIdx = 0\<rparr>
   \<and> ApplicationId ex_endpoint = ''app'' \<and> PrivateInstanceIndex ex_endpoint = ''0''
   \<and> ApplicationId ex_endpoint2 = ''app'' \<and> PrivateInstanceIndex ex_endpoint2 = ''0''
   \<and> CanonicalAddr ex_endpoint \<noteq> CanonicalAddr ex_endpoint2
   \<and> fst (LookupWithInstance 1 2 3 ex_registry2 ''foo.com'' ''app'' ''0'')
       = Some \<lparr>contextPath = [], retryAfterFailure = 0,
               endpoints = [ex_endpoint2\<lparr>updated_at := 3\<rparr>], nextIdx = 0\<rparr>"
proof -
  have l: "fst (Lookup 1 2 ex_registry2 ''foo.com'')
     = Some \<lparr>contextPath = ''/'', retryAfterFailure = 2,
             endpoints = [ex_endpoint, ex_endpoint2], nextIdx = 0\<rparr>"
    using ex_registry2_Find by (rule Lookup_exact)
  have m: "ApplicationId ex_endpoint = ''app'' \<and> PrivateInstanceIndex ex_endpoint = ''0''
      \<and> ApplicationId ex_endpoint2 = ''app'' \<and> PrivateInstanceIndex ex_endpoint2 = ''0''"
    by (simp add: ex_endpoint2_def ex_endpoint_def)
  have a: "CanonicalAddr ex_endpoint \<noteq> CanonicalAddr ex_endpoint2"
    by (simp add: ex_endpoint2_def ex_endpoint_def)
  have "fst (LookupWithInstance 1 2 3 ex_registry2 ''foo.com'' ''app'' ''0'')
       = Some ((NewPool 0 [])\<lparr>endpoints := [ex_endpoint2\<lparr>updated_at := 3\<rparr>]\<rparr>)"
    using LookupWithInstance_last_match[of 1 2 3 ex_registry2 "''foo.com''" "''app''" "''0''"]
    by (simp add: RouteKey_foo l ex_endpoint2_def ex_endpoint_def)
  with l m a show ?thesis by (simp add: NewPool_def)
qed

section \<open>Properties of the round tripper\<close>

subsection \<open>Auxiliary facts\<close>

lemma sublist_key_message: "sublist key (key @ rest)"
  unfolding sublist_def by (rule exI[of _ "[]"], rule exI[of _ rest]) simp

lemma sublist_body: "sublist msg (body @ msg)"
  unfolding sublist_def by (rule exI[of _ body], rule exI[of _ "[]"]) simp

lemma get_set_header: "get_header k (set_header k v h) = v"
  by (simp add: get_header_def set_header_def)

lemma Next_nonempty:
  assumes "snapshot it \<noteq> []" and "failed it = []"
  shows "\<exists>ep. fst (Next it) = Some ep"
proof -
  from assms(1) have "revolution it \<noteq> []" by (simp add: revolution_def)
  then obtain i rest where "revolution it = i # rest" by (cases "revolution it") auto
  with assms show ?thesis by (simp add: Next_def)
qed

lemma badGateway_facts:
  "fst (badGateway e st) = (None, Some e)"
  "Code (rw (snd (badGateway e st))) = StatusBadGateway"
  "get_header ''X-Cf-RouterError'' (rwHeader (rw (snd (badGateway e st)))) = ''endpoint_failure''"
  "sublist BadGatewayMessage (Body (rw (snd (badGateway e st))))"
  "alrStatusCode (alr (snd (badGateway e st))) = StatusBadGateway"
  "RouteEndpoint (alr (snd (badGateway e st))) = RouteEndpoint (alr st)"
  "transportCalls (snd (badGateway e st)) = transportCalls st"
  "metrics (snd (badGateway e st)) = metrics st @ [CaptureBadGateway]"
  "rtLogger (snd (badGateway e st)) = rtLogger st"
  by (simp_all add: badGateway_def get_set_header sublist_body)


subsection \<open>Missing context values\<close>

text \<open>
  Claim C8. When the request's context lacks \<^verbatim>\<open>RoutePool\<close>, or has it and lacks
  \<^verbatim>\<open>ProxyResponseWriter\<close>, or has both and lacks \<^verbatim>\<open>AccessLogRecord\<close>, \<^verbatim>\<open>RoundTrip\<close> returns no
  response and the error \<^verbatim>\<open>ContextMissing\<close> of that key, and the message of the error
  contains the name of the key.
\<close>

theorem RoundTrip_missing_context:
  "(ctxRoutePool ctx = None \<longrightarrow>
      fst (RoundTrip cfg tr ctx req) = (None, Some (ContextMissing ''RoutePool''))
      \<and> sublist ''RoutePool'' (error_message (ContextMissing ''RoutePool'')))
   \<and> (ctxRoutePool ctx \<noteq> None \<and> ctxProxyResponseWriter ctx = None \<longrightarrow>
      fst (RoundTrip cfg tr ctx req) = (None, Some (ContextMissing ''ProxyResponseWriter''))
      \<and> sublist ''ProxyResponseWriter'' (error_message (ContextMissing ''ProxyResponseWriter'')))
   \<and> (ctxRoutePool ctx \<noteq> None \<and> ctxProxyResponseWriter ctx \<noteq> None
        \<and> ctxAccessLogRecord ctx = None \<longrightarrow>
      fst (RoundTrip cfg tr ctx req) = (None, Some (ContextMissing ''AccessLogRecord''))
      \<and> sublist ''AccessLogRecord'' (error_message (ContextMissing ''AccessLogRecord'')))"
  by (auto simp: RoundTrip_def sublist_key_message simp del: append.simps)

theorem RoundTrip_missing_context_witness:
  "fst (RoundTrip ex_config transport_ok
          \<lparr>ctxRoutePool = None, ctxProxyResponseWriter = None, ctxAccessLogRecord = None,
           ctxRouteServiceURL = None\<rparr> ex_request)
     = (None, Some (ContextMissing ''RoutePool''))
   \<and> fst (RoundTrip ex_config transport_ok
          \<lparr>ctxRoutePool = Some ex_pool, ctxProxyResponseWriter = None,
           ctxAccessLogRecord = None, ctxRouteServiceURL = None\<rparr> ex_request)
     = (None, Some (ContextMissing ''ProxyResponseWriter''))
   \<and> fst (RoundTrip ex_config transport_ok
          \<lparr>ctxRoutePool = Some ex_pool,
           ctxProxyResponseWriter = Some \<lparr>Code = 200, rwHeader = [], Body = []\<rparr>,
           ctxAccessLogRecord = None, ctxRouteServiceURL = None\<rparr> ex_request)
     = (None, Some (ContextMissing ''AccessLogRecord''))
   \<and> error_message (ContextMissing ''AccessLogRecord'') = ''AccessLogRecord not set on context''"
  using RoundTrip_missing_context[of
      "\<lparr>ctxRoutePool = None, ctxProxyResponseWriter = None, ctxAccessLogRecord = None,
        ctxRouteServiceURL = None\<rparr>" ex_config transport_ok ex_request]
    RoundTrip_missing_context[of
      "\<lparr>ctxRoutePool = Some ex_pool, ctxProxyResponseWriter = None,
        ctxAccessLogRecord = None, ctxRouteServiceURL = None\<rparr>" ex_config transport_ok ex_request]
    RoundTrip_missing_context[of
      "\<lparr>ctxRoutePool = Some ex_pool,
        ctxProxyResponseWriter = Some \<lparr>Code = 200, rwHeader = [], Body = []\<rparr>,
        ctxAccessLogRecord = None, ctxRouteServiceURL = None\<rparr>" ex_config transport_ok ex_request]
  by simp

subsection \<open>An empty pool\<close>

text \<open>
  Claim C7, as the round tripper has it. For a request with the three required context
  values and no \<^verbatim>\<open>RouteServiceURL\<close>, whose pool is empty, \<^verbatim>\<open>RoundTrip\<close> returns no response
  and the error \<^verbatim>\<open>NoEndpointsAvailable\<close>; the response writer has status 502, the header
  \<^verbatim>\<open>X-Cf-RouterError: endpoint_failure\<close> and a body containing \<^verbatim>\<open>BadGatewayMessage\<close>; the
  access log record has status code 502 and no route endpoint; the transport is not
  called, \<^verbatim>\<open>CaptureRoutingRequest\<close> is never called and \<^verbatim>\<open>CaptureBadGateway\<close> is called once.
\<close>

theorem RoundTrip_empty_pool:
  assumes "ctxRoutePool ctx = Some pool" and "endpoints pool = []"
    and "ctxProxyResponseWriter ctx = Some w" and "ctxAccessLogRecord ctx = Some a"
    and "ctxRouteServiceURL ctx = None"
  shows "\<exists>st. RoundTrip cfg tr ctx req = ((None, Some NoEndpointsAvailable), Some st)
     \<and> Code (rw st) = StatusBadGateway
     \<and> get_header ''X-Cf-RouterError'' (rwHeader (rw st)) = ''endpoint_failure''
     \<and> sublist BadGatewayMessage (Body (rw st))
     \<and> alrStatusCode (alr st) = StatusBadGateway
     \<and> RouteEndpoint (alr st) = None
     \<and> transportCalls st = []
     \<and> metrics st = [CaptureBadGateway]"
  using assms
  by (simp add: RoundTrip_def retry_limit_def eval_nat_numeral Iterator_def Next_def
      badGateway_def get_set_header sublist_body Let_def)

theorem RoundTrip_empty_pool_witness:
  "endpoints (NewPool 1 []) = []
   \<and> (\<exists>st. RoundTrip ex_config transport_ok (ex_context (NewPool 1 []) None) ex_request
              = ((None, Some NoEndpointsAvailable), Some st)
         \<and> Code (rw st) = StatusBadGateway
         \<and> get_header ''X-Cf-RouterError'' (rwHeader (rw st)) = ''endpoint_failure''
         \<and> sublist BadGatewayMessage (Body (rw st))
         \<and> alrStatusCode (alr st) = StatusBadGateway
         \<and> RouteEndpoint (alr st) = None
         \<and> transportCalls st = []
         \<and> metrics st = [CaptureBadGateway])"
proof -
  have e: "endpoints (NewPool 1 []) = []" by (simp add: NewPool_def)
  have c: "ctxRoutePool (ex_context (NewPool 1 []) None) = Some (NewPool 1 [])"
    "ctxProxyResponseWriter (ex_context (NewPool 1 []) None)
       = Some \<lparr>Code = 200, rwHeader = [], Body = []\<rparr>"
    "ctxAccessLogRecord (ex_context (NewPool 1 []) None)
       = Some \<lparr>alrStatusCode = 0, RouteEndpoint = None\<rparr>"
    "ctxRouteServiceURL (ex_context (NewPool 1 []) None) = None"
    by (simp_all add: ex_context_def)
  from e RoundTrip_empty_pool[OF c(1) e c(2) c(3) c(4), of ex_config transport_ok ex_request]
  show ?thesis by simp
qed

text \<open>
  Without the restriction to requests that carry no \<^verbatim>\<open>RouteServiceURL\<close> the claim fails: in
  route-service mode the pool is not iterated, and with an empty pool and a transport that
  answers 200 \<^verbatim>\<open>RoundTrip\<close> returns that response, writes nothing and captures nothing.
\<close>

theorem RoundTrip_empty_pool_counterexample:
  "endpoints (NewPool 1 []) = []
   \<and> fst (RoundTrip ex_config transport_ok (ex_context (NewPool 1 []) (Some ''foo.com''))
            ex_request)
       = (Some \<lparr>StatusCode = 200, Header = []\<rparr>, None)
   \<and> map_option rw
        (snd (RoundTrip ex_config transport_ok (ex_context (NewPool 1 []) (Some ''foo.com''))
                ex_request))
       = Some \<lparr>Code = 200, rwHeader = [], Body = []\<rparr>
   \<and> map_option metrics
        (snd (RoundTrip ex_config transport_ok (ex_context (NewPool 1 []) (Some ''foo.com''))
                ex_request))
       = Some []"
  by (simp add: NewPool_def RoundTrip_def ex_context_def retry_limit_def eval_nat_numeral
      transport_ok_def Let_def)

subsection \<open>A non-retryable error\<close>

text \<open>
  Claim C6. Let the request reach the transport (the three required context values are
  present and, unless a \<^verbatim>\<open>RouteServiceURL\<close> is set, the pool has an endpoint), and let the
  transport answer its first call with an error that is neither a dial failure nor a
  connection reset. Then \<^verbatim>\<open>RoundTrip\<close> calls the transport exactly once, returns no response
  and that error, writes status 502 with the header \<^verbatim>\<open>X-Cf-RouterError: endpoint_failure\<close>
  and a body containing \<^verbatim>\<open>BadGatewayMessage\<close>, stamps status code 502 on the access log
  record, calls \<^verbatim>\<open>CaptureBadGateway\<close> once and does not log \<^verbatim>\<open>backend-endpoint-failed\<close>.
\<close>

theorem RoundTrip_non_retryable:
  assumes ctx: "ctxRoutePool ctx = Some pool" "ctxProxyResponseWriter ctx = Some w"
      "ctxAccessLogRecord ctx = Some a"
    and reached: "ctxRouteServiceURL ctx \<noteq> None \<or> endpoints pool \<noteq> []"
    and tr: "\<forall>r. tr 0 r = Inl err"
    and nr: "\<not> retryableError err"
  shows "\<exists>st. RoundTrip cfg tr ctx req = ((None, Some err), Some st)
     \<and> length (transportCalls st) = 1
     \<and> Code (rw st) = StatusBadGateway
     \<and> get_header ''X-Cf-RouterError'' (rwHeader (rw st)) = ''endpoint_failure''
     \<and> sublist BadGatewayMessage (Body (rw st))
     \<and> alrStatusCode (alr st) = StatusBadGateway
     \<and> count_list (metrics st) CaptureBadGateway = 1
     \<and> Error ''backend-endpoint-failed'' \<notin> set (rtLogger st)"
proof (cases "ctxRouteServiceURL ctx")
  case (Some rsurl)
  let ?st = "\<lparr>rw = w, alr = a, transportCalls = [], metrics = [], rtLogger = []\<rparr>"
  let ?st1 = "?st\<lparr>transportCalls := [req\<lparr>URL := rsurl, Host := rsurl\<rparr>]\<rparr>"
  have loop: "route_service_loop retry_limit tr req rsurl None ?st = badGateway err ?st1"
    using tr nr by (simp add: retry_limit_def eval_nat_numeral Let_def)
  have rt: "RoundTrip cfg tr ctx req = (fst (badGateway err ?st1), Some (snd (badGateway err ?st1)))"
    using ctx Some loop by (simp add: RoundTrip_def Let_def)
  show ?thesis
    by (rule exI[of _ "snd (badGateway err ?st1)"]) (simp add: rt badGateway_facts)
next
  case None
  with reached have "snapshot (Iterator pool) \<noteq> []" by (simp add: Iterator_def)
  moreover have "failed (Iterator pool) = []" by (simp add: Iterator_def)
  ultimately obtain ep where ep: "fst (Next (Iterator pool)) = Some ep"
    using Next_nonempty by blast
  let ?st = "\<lparr>rw = w, alr = a, transportCalls = [], metrics = [], rtLogger = []\<rparr>"
  let ?st1 = "?st\<lparr>alr := a\<lparr>RouteEndpoint := Some ep\<rparr>,
                   metrics := [CaptureRoutingRequest ep],
                   transportCalls := [req\<lparr>URL := CanonicalAddr ep, Host := CanonicalAddr ep\<rparr>]\<rparr>"
  have loop: "backend_loop retry_limit cfg tr req (Iterator pool) None ?st = badGateway err ?st1"
    using tr nr ep by (simp add: retry_limit_def eval_nat_numeral Let_def)
  have rt: "RoundTrip cfg tr ctx req = (fst (badGateway err ?st1), Some (snd (badGateway err ?st1)))"
    using ctx None loop by (simp add: RoundTrip_def Let_def)
  show ?thesis
    by (rule exI[of _ "snd (badGateway err ?st1)"]) (simp add: rt badGateway_facts)
qed

theorem RoundTrip_non_retryable_witness:
  "\<exists>st. RoundTrip ex_config transport_error (ex_context ex_pool None) ex_request
           = ((None, Some (ErrorString ''error'')), Some st)
     \<and> length (transportCalls st) = 1
     \<and> Code (rw st) = StatusBadGateway
     \<and> get_header ''X-Cf-RouterError'' (rwHeader (rw st)) = ''endpoint_failure''
     \<and> sublist BadGatewayMessage (Body (rw st))
     \<and> alrStatusCode (alr st) = StatusBadGateway
     \<and> count_list (metrics st) CaptureBadGateway = 1
     \<and> Error ''backend-endpoint-failed'' \<notin> set (rtLogger st)"
proof -
  have 1: "ctxRoutePool (ex_context ex_pool None) = Some ex_pool"
    "ctxProxyResponseWriter (ex_context ex_pool None) = Some \<lparr>Code = 200, rwHeader = [], Body = []\<rparr>"
    "ctxAccessLogRecord (ex_context ex_pool None) = Some \<lparr>alrStatusCode = 0, RouteEndpoint = None\<rparr>"
    by (simp_all add: ex_context_def)
  have 2: "ctxRouteServiceURL (ex_context ex_pool None) \<noteq> None \<or> endpoints ex_pool \<noteq> []"
    by (simp add: ex_pool_def)
  have 3: "\<forall>r. transport_error 0 r = Inl (ErrorString ''error'')"
    by (simp add: transport_error_def)
  have 4: "\<not> retryableError (ErrorString ''error'')" by simp
  show ?thesis by (rule RoundTrip_non_retryable[where tr = transport_error, OF 1 2 3 4])
qed

subsection \<open>A dial error on every call\<close>




end
